theory Spec2Isabelle
  imports Complex_Main "HOL-Library.Word" "HOL-Library.Log_Nat"
begin

unbundle bit_operations_syntax

section \<open>Data model\<close>

text \<open>
  A frame is a grid of pixels with three 8-bit channels, stored as a list of rows; a
  mask is a single-channel grid of 8-bit values (0 or 255). Python integers are
  \<open>int\<close>. In the detector, Python floats are modelled as reals: every comparison and
  every control-flow decision of the source is kept, rounding of the floating-point
  operations is not represented. Where a float is truncated to an integer or an exception
  depends on its value (the resize dimension, the line thickness, the point transform),
  floats are IEEE values with their rounding, infinities and NaN, see below.
\<close>

type_synonym pixel = "8 word \<times> 8 word \<times> 8 word"
type_synonym image = "pixel list list"
type_synonym mask = "8 word list list"
type_synonym scalar = "nat \<times> nat \<times> nat"
type_synonym point = "int \<times> int"

datatype error = ZeroDivisionError | ValueError | OverflowError | Cv2Error

text \<open>The entries of the dictionary returned by \<open>cv2.moments\<close> that the source reads.\<close>

record Moments =
  m00 :: real
  m10 :: real
  m01 :: real

section \<open>Python primitives\<close>

text \<open>Float division \<open>a / b\<close> raises on a zero divisor.\<close>

definition truediv :: "real \<Rightarrow> real \<Rightarrow> error + real" where
  "truediv a b = (if b = 0 then Inl ZeroDivisionError else Inr (a / b))"

text \<open>\<open>int(x)\<close> on a float truncates towards zero.\<close>

definition py_int :: "real \<Rightarrow> int" where
  "py_int x = (if 0 \<le> x then \<lfloor>x\<rfloor> else \<lceil>x\<rceil>)"

section \<open>Floating-point numbers\<close>

text \<open>
  An IEEE value is a finite real, an infinity or NaN; signed zeros are not distinguished.
  A conversion to a format of \<open>p\<close> significant bits rounds to nearest, ties to even:
  the value is scaled by the unit in the last place of its binade, rounded to an integer
  and scaled back. \<open>binade a\<close> is the exponent \<open>e\<close> with \<open>2 ^ e \<le> |a| < 2 ^ (e + 1)\<close>,
  computed from the bit length of the integer part of \<open>|a|\<close> or of \<open>1 / |a|\<close>.
\<close>

datatype fl = Fin real | PInf | MInf | NaN

definition pow2 :: "int \<Rightarrow> real" where
  "pow2 k = (if 0 \<le> k then 2 ^ nat k else 1 / 2 ^ nat (- k))"

definition binade :: "real \<Rightarrow> int" where
  "binade a =
     (if 1 \<le> \<bar>a\<bar> then bitlen \<lfloor>\<bar>a\<bar>\<rfloor> - 1 else - bitlen (\<lceil>1 / \<bar>a\<bar>\<rceil> - 1))"

definition rne :: "real \<Rightarrow> int" where
  "rne m =
     (let f = \<lfloor>m\<rfloor>; d = m - real_of_int f in
      if d < 1 / 2 then f else if 1 / 2 < d then f + 1 else if even f then f else f + 1)"

definition round_fp :: "nat \<Rightarrow> int \<Rightarrow> real \<Rightarrow> real" where
  "round_fp p emin a =
     (if a = 0 then 0
      else
        (let e = max (binade a) emin; q = pow2 (e - int p + 1)
         in real_of_int (rne (a / q)) * q))"

text \<open>Single precision: 24 bits, exponents from -126; double precision: 53 bits, from -1022.\<close>

definition round32 :: "real \<Rightarrow> real" where
  "round32 = round_fp 24 (- 126)"

definition round64 :: "real \<Rightarrow> real" where
  "round64 = round_fp 53 (- 1022)"

text \<open>The cast of a double to single precision, \<open>(float)v\<close>: it overflows to an infinity.\<close>

definition cast32 :: "fl \<Rightarrow> fl" where
  "cast32 v =
     (case v of
        Fin a \<Rightarrow>
          (let r = round32 a in
           if 2 ^ 128 \<le> \<bar>r\<bar> then (if 0 < a then PInf else MInf) else Fin r)
      | _ \<Rightarrow> v)"

text \<open>
  Arithmetic on doubles follows the IEEE rules for infinities and NaN. On finite values it
  is exact: the rounding of the single operations of double precision is not represented.
\<close>

fun fl_sgn :: "fl \<Rightarrow> real" where
  "fl_sgn (Fin a) = sgn a"
| "fl_sgn PInf = 1"
| "fl_sgn MInf = - 1"
| "fl_sgn NaN = 0"

fun fl_mul :: "fl \<Rightarrow> fl \<Rightarrow> fl" where
  "fl_mul NaN v = NaN"
| "fl_mul u NaN = NaN"
| "fl_mul (Fin a) (Fin b) = Fin (a * b)"
| "fl_mul u v =
     (let s = fl_sgn u * fl_sgn v in if s = 0 then NaN else if 0 < s then PInf else MInf)"

fun fl_add :: "fl \<Rightarrow> fl \<Rightarrow> fl" where
  "fl_add NaN v = NaN"
| "fl_add u NaN = NaN"
| "fl_add (Fin a) (Fin b) = Fin (a + b)"
| "fl_add (Fin a) v = v"
| "fl_add u (Fin b) = u"
| "fl_add u v = (if u = v then u else NaN)"

text \<open>\<open>1. / w\<close> and \<open>fabs(w) > eps\<close>; a comparison with NaN is false.\<close>

fun fl_recip :: "fl \<Rightarrow> fl" where
  "fl_recip (Fin a) = (if a = 0 then PInf else Fin (1 / a))"
| "fl_recip NaN = NaN"
| "fl_recip u = Fin 0"

fun fl_abs_gt :: "fl \<Rightarrow> real \<Rightarrow> bool" where
  "fl_abs_gt (Fin a) eps \<longleftrightarrow> eps < \<bar>a\<bar>"
| "fl_abs_gt NaN eps \<longleftrightarrow> False"
| "fl_abs_gt u eps \<longleftrightarrow> True"

text \<open>
  \<open>int(v)\<close> on a float truncates a finite value and raises \<open>ValueError\<close> on NaN and
  \<open>OverflowError\<close> on an infinity.
\<close>

fun int_of_float :: "fl \<Rightarrow> error + int" where
  "int_of_float (Fin a) = Inr (py_int a)"
| "int_of_float NaN = Inl ValueError"
| "int_of_float u = Inl OverflowError"

text \<open>
  The element of an \<open>np.float32\<close> array made from a Python integer: the integer is
  converted to a double, which raises \<open>OverflowError\<close> beyond the range of doubles, and
  the double is cast to single precision.
\<close>

definition np_float32 :: "int \<Rightarrow> error + fl" where
  "np_float32 k =
     (let d = round64 (real_of_int k) in
      if 2 ^ 1024 \<le> \<bar>d\<bar> then Inl OverflowError else Inr (cast32 (Fin d)))"

text \<open>
  Float arithmetic of Python, in double precision: \<open>a / b\<close> raises on a zero divisor,
  and quotient and product are rounded.
\<close>

definition float_truediv :: "real \<Rightarrow> real \<Rightarrow> error + real" where
  "float_truediv a b = (if b = 0 then Inl ZeroDivisionError else Inr (round64 (a / b)))"

definition float_mul :: "real \<Rightarrow> real \<Rightarrow> real" where
  "float_mul a b = round64 (a * b)"

section \<open>OpenCV primitives\<close>

text \<open>
  The numerical and geometric routines of the library (blur, colour conversion, contour
  extraction, contour area, minimal enclosing circle, moments) are parameters of the model:
  a record of total functions over an arbitrary contour type \<open>'c\<close>. The theorems hold for
  every such record; where a theorem needs a documented fact about one of the routines, the
  fact is a stated hypothesis.
\<close>

record 'c cv2 =
  GaussianBlur :: "image \<Rightarrow> nat \<times> nat \<Rightarrow> real \<Rightarrow> image"
  cvtColor_BGR2HSV :: "image \<Rightarrow> image"
  findContours :: "mask \<Rightarrow> 'c list"
  contourArea :: "'c \<Rightarrow> real"
  minEnclosingCircle :: "'c \<Rightarrow> (real \<times> real) \<times> real"
  moments :: "'c \<Rightarrow> Moments"

text \<open>
  The pixelwise routines are written out. \<open>inRange\<close> sets an output pixel to 255 when
  every channel lies between the bounds, both inclusive, and to 0 otherwise.
\<close>

definition in_bounds :: "scalar \<Rightarrow> scalar \<Rightarrow> pixel \<Rightarrow> bool" where
  "in_bounds lowerb upperb px =
     (case (lowerb, upperb, px) of
        ((l0, l1, l2), (u0, u1, u2), (c0, c1, c2)) \<Rightarrow>
          l0 \<le> unat c0 \<and> unat c0 \<le> u0 \<and>
          l1 \<le> unat c1 \<and> unat c1 \<le> u1 \<and>
          l2 \<le> unat c2 \<and> unat c2 \<le> u2)"

definition inRange :: "image \<Rightarrow> scalar \<Rightarrow> scalar \<Rightarrow> mask" where
  "inRange src lowerb upperb =
     map (map (\<lambda>px. if in_bounds lowerb upperb px then 255 else 0)) src"

definition bitwise_or :: "mask \<Rightarrow> mask \<Rightarrow> mask" where
  "bitwise_or src1 src2 = map2 (map2 (OR)) src1 src2"

text \<open>\<open>np.ones((h, w), np.uint8)\<close>\<close>

definition ones :: "nat \<times> nat \<Rightarrow> mask" where
  "ones shape = replicate (fst shape) (replicate (snd shape) 1)"

text \<open>
  Erosion and dilation with the default anchor (the kernel centre) and the default border:
  the output pixel is the minimum (maximum) of the source pixels under the nonzero kernel
  entries, positions outside the image being left out.
\<close>

definition morph_window :: "mask \<Rightarrow> mask \<Rightarrow> nat \<Rightarrow> nat \<Rightarrow> 8 word list" where
  "morph_window src krn i j =
     (let ay = length krn div 2;
          ax = (case krn of [] \<Rightarrow> 0 | row # _ \<Rightarrow> length row div 2) in
      [src ! (i + a - ay) ! (j + b - ax).
         a \<leftarrow> [0..<length krn], b \<leftarrow> [0..<length (krn ! a)],
         krn ! a ! b \<noteq> 0 \<and> ay \<le> i + a \<and> i + a - ay < length src \<and>
         ax \<le> j + b \<and> j + b - ax < length (src ! (i + a - ay))])"

definition erode1 :: "mask \<Rightarrow> mask \<Rightarrow> mask" where
  "erode1 krn src =
     map (\<lambda>i. map (\<lambda>j. fold min (morph_window src krn i j) 255) [0..<length (src ! i)])
       [0..<length src]"

definition dilate1 :: "mask \<Rightarrow> mask \<Rightarrow> mask" where
  "dilate1 krn src =
     map (\<lambda>i. map (\<lambda>j. fold max (morph_window src krn i j) 0) [0..<length (src ! i)])
       [0..<length src]"

definition erode :: "mask \<Rightarrow> mask \<Rightarrow> nat \<Rightarrow> mask" where
  "erode src krn iterations = (erode1 krn ^^ iterations) src"

definition dilate :: "mask \<Rightarrow> mask \<Rightarrow> nat \<Rightarrow> mask" where
  "dilate src krn iterations = (dilate1 krn ^^ iterations) src"

section \<open>ball_detector.py\<close>

definition redLower1 :: scalar where "redLower1 = (0, 100, 50)"
definition redUpper1 :: scalar where "redUpper1 = (10, 255, 255)"
definition redLower2 :: scalar where "redLower2 = (170, 100, 50)"
definition redUpper2 :: scalar where "redUpper2 = (179, 255, 255)"

text \<open>Steps 1 to 3 of \<open>detect_ball\<close>: blur, HSV conversion, the two masks, opening.\<close>

definition hsv_of :: "'c cv2 \<Rightarrow> image \<Rightarrow> image" where
  "hsv_of cv frame =
     (let blurred = GaussianBlur cv frame (11, 11) 0 in cvtColor_BGR2HSV cv blurred)"

definition ball_mask :: "'c cv2 \<Rightarrow> image \<Rightarrow> mask" where
  "ball_mask cv frame =
     (let hsv = hsv_of cv frame;
          mask1 = inRange hsv redLower1 redUpper1;
          mask2 = inRange hsv redLower2 redUpper2;
          mask = bitwise_or mask1 mask2;
          kernel = ones (5, 5);
          mask = erode mask kernel 2;
          mask = dilate mask kernel 2
      in mask)"

text \<open>
  Step 5, the loop over the contours. The state is \<open>(best_c, max_area)\<close>; each
  \<open>continue\<close> of the source is a recursive call with the state unchanged.
\<close>

fun filter_contours ::
  "'c cv2 \<Rightarrow> 'c list \<Rightarrow> 'c option \<times> real \<Rightarrow> error + ('c option \<times> real)" where
  "filter_contours cv [] st = Inr st"
| "filter_contours cv (c # cnts) (best_c, max_area) =
     (let area = contourArea cv c in
      if area < 100 then filter_contours cv cnts (best_c, max_area)
      else
        (let ((x, y), radius) = minEnclosingCircle cv c in
         if radius = 0 then filter_contours cv cnts (best_c, max_area)
         else
           (let circle_area = pi * radius ^ 2 in
            case truediv area circle_area of
              Inl e \<Rightarrow> Inl e
            | Inr circularity \<Rightarrow>
                if circularity > 0.7 then
                  (if area > max_area \<and> area < 8000
                   then filter_contours cv cnts (Some c, area)
                   else filter_contours cv cnts (best_c, max_area))
                else filter_contours cv cnts (best_c, max_area))))"

definition detect_ball :: "'c cv2 \<Rightarrow> image \<Rightarrow> error + (point option \<times> real \<times> mask)" where
  "detect_ball cv frame =
     (let mask = ball_mask cv frame;
          cnts = findContours cv mask
      in case filter_contours cv cnts (None, 0) of
           Inl e \<Rightarrow> Inl e
         | Inr (best_c, max_area) \<Rightarrow>
             (case best_c of
                Some c \<Rightarrow>
                  (let ((x, y), radius) = minEnclosingCircle cv c;
                       M = moments cv c
                   in if m00 M \<noteq> 0 then
                        (case truediv (m10 M) (m00 M) of
                           Inl e \<Rightarrow> Inl e
                         | Inr cx \<Rightarrow>
                             (case truediv (m01 M) (m00 M) of
                                Inl e \<Rightarrow> Inl e
                              | Inr cy \<Rightarrow> Inr (Some (py_int cx, py_int cy), radius, mask)))
                      else Inr (None, 0, mask))
              | None \<Rightarrow> Inr (None, 0, mask)))"

text \<open>
  The library checks the arguments of a call: \<open>cv2.GaussianBlur\<close>, the first call of
  \<open>detect_ball\<close>, raises \<open>cv2.error\<close> on an image with no pixel. \<open>detect_ball_checked\<close>
  is \<open>detect_ball\<close> with this check; on a frame with pixels the two agree.
\<close>

definition empty_image :: "image \<Rightarrow> bool" where
  "empty_image src \<longleftrightarrow> (case src of [] \<Rightarrow> True | row # _ \<Rightarrow> row = [])"

definition cv2_GaussianBlur :: "'c cv2 \<Rightarrow> image \<Rightarrow> nat \<times> nat \<Rightarrow> real \<Rightarrow> error + image" where
  "cv2_GaussianBlur cv src ksize sigma =
     (if empty_image src then Inl Cv2Error else Inr (GaussianBlur cv src ksize sigma))"

definition detect_ball_checked ::
  "'c cv2 \<Rightarrow> image \<Rightarrow> error + (point option \<times> real \<times> mask)" where
  "detect_ball_checked cv frame =
     (case cv2_GaussianBlur cv frame (11, 11) 0 of
        Inl err \<Rightarrow> Inl err
      | Inr blurred \<Rightarrow> detect_ball cv frame)"

section \<open>perspective_mapper.py\<close>

text \<open>
  A 3x3 matrix is a triple of rows. \<open>cv2.getPerspectiveTransform\<close> and
  \<open>cv2.warpPerspective\<close> are parameters. \<open>cv2.perspectiveTransform\<close> is written out:
  every point \<open>(x, y)\<close> of the input array goes to \<open>(x' / w, y' / w)\<close> with
  \<open>(x', y', w) = M (x, y, 1)\<close>, and to \<open>(0, 0)\<close> when \<open>|w|\<close> is at most
  \<open>FLT_EPSILON\<close>. It is given twice: over the reals, and in the arithmetic of the
  library, which reads single precision points, computes in double precision and stores
  single precision results.
\<close>

definition FLT_EPSILON :: real where
  "FLT_EPSILON = 1 / 2 ^ 23"

type_synonym mat3 = "(real \<times> real \<times> real) \<times> (real \<times> real \<times> real) \<times> (real \<times> real \<times> real)"

definition homography :: "mat3 \<Rightarrow> real \<times> real \<Rightarrow> real \<times> real" where
  "homography m p =
     (case (m, p) of
        (((a, b, c), (d, e, f), (g, h, i)), (x, y)) \<Rightarrow>
          (let w = g * x + h * y + i in
           if FLT_EPSILON < \<bar>w\<bar> then ((a * x + b * y + c) / w, (d * x + e * y + f) / w)
           else (0, 0)))"

definition perspectiveTransform ::
  "(real \<times> real) list list \<Rightarrow> mat3 \<Rightarrow> (real \<times> real) list list" where
  "perspectiveTransform src m = map (map (homography m)) src"

definition homography_f32 :: "mat3 \<Rightarrow> fl \<times> fl \<Rightarrow> fl \<times> fl" where
  "homography_f32 m p =
     (case (m, p) of
        (((m0, m1, m2), (m3, m4, m5), (m6, m7, m8)), (x, y)) \<Rightarrow>
          (let w = fl_add (fl_add (fl_mul x (Fin m6)) (fl_mul y (Fin m7))) (Fin m8) in
           if fl_abs_gt w FLT_EPSILON then
             (let w = fl_recip w in
              (cast32 (fl_mul (fl_add (fl_add (fl_mul x (Fin m0)) (fl_mul y (Fin m1))) (Fin m2)) w),
               cast32 (fl_mul (fl_add (fl_add (fl_mul x (Fin m3)) (fl_mul y (Fin m4))) (Fin m5)) w)))
           else (Fin 0, Fin 0)))"

definition perspectiveTransform_f32 ::
  "(fl \<times> fl) list list \<Rightarrow> mat3 \<Rightarrow> (fl \<times> fl) list list" where
  "perspectiveTransform_f32 src m = map (map (homography_f32 m)) src"

record PerspectiveMapper =
  WARPED_WIDTH :: int
  WARPED_HEIGHT :: int
  pts_src :: "(real \<times> real) list"
  pts_dst :: "(real \<times> real) list"
  M :: mat3

text \<open>\<open>PerspectiveMapper.__init__\<close>; the argument \<open>frame_width\<close> is not used by the source.\<close>

definition PerspectiveMapper_init ::
  "((real \<times> real) list \<Rightarrow> (real \<times> real) list \<Rightarrow> mat3) \<Rightarrow> int \<Rightarrow> PerspectiveMapper" where
  "PerspectiveMapper_init getPerspectiveTransform frame_width =
     (let width = 400;
          height = 900;
          src = [(220, 100), (420, 100), (500, 590), (140, 590)];
          dst = [(0, 0), (real_of_int (width - 1), 0),
                 (real_of_int (width - 1), real_of_int (height - 1)),
                 (0, real_of_int (height - 1))]
      in \<lparr>WARPED_WIDTH = width, WARPED_HEIGHT = height, pts_src = src, pts_dst = dst,
          M = getPerspectiveTransform src dst\<rparr>)"

definition warp_frame ::
  "(image \<Rightarrow> mat3 \<Rightarrow> int \<times> int \<Rightarrow> image) \<Rightarrow> PerspectiveMapper \<Rightarrow> image \<Rightarrow> image" where
  "warp_frame warpPerspective self frame =
     warpPerspective frame (M self) (WARPED_WIDTH self, WARPED_HEIGHT self)"

definition transform_point :: "PerspectiveMapper \<Rightarrow> point option \<Rightarrow> point option" where
  "transform_point self point =
     (case point of
        None \<Rightarrow> None
      | Some (p0, p1) \<Rightarrow>
          (let src_pt = [[(real_of_int p0, real_of_int p1)]];
               dst_pt = perspectiveTransform src_pt (M self)
           in Some (py_int (fst (dst_pt ! 0 ! 0)), py_int (snd (dst_pt ! 0 ! 0)))))"

text \<open>
  \<open>transform_point\<close> in the arithmetic of the source: the point is stored in an
  \<open>np.float32\<close> array, transformed by the library, and each coordinate of the result
  goes through \<open>int\<close>, which raises on a value that is not finite.
\<close>

definition transform_point_f32 ::
  "PerspectiveMapper \<Rightarrow> point option \<Rightarrow> error + point option" where
  "transform_point_f32 self point =
     (case point of
        None \<Rightarrow> Inr None
      | Some (p0, p1) \<Rightarrow>
          (case np_float32 p0 of
             Inl err \<Rightarrow> Inl err
           | Inr x \<Rightarrow>
               (case np_float32 p1 of
                  Inl err \<Rightarrow> Inl err
                | Inr y \<Rightarrow>
                    (let src_pt = [[(x, y)]];
                         dst_pt = perspectiveTransform_f32 src_pt (M self)
                     in case int_of_float (fst (dst_pt ! 0 ! 0)) of
                          Inl err \<Rightarrow> Inl err
                        | Inr a \<Rightarrow>
                            (case int_of_float (snd (dst_pt ! 0 ! 0)) of
                               Inl err \<Rightarrow> Inl err
                             | Inr b \<Rightarrow> Inr (Some (a, b)))))))"

section \<open>collections.deque\<close>

text \<open>
  A bounded deque of the Python standard library. The constructor rejects a negative
  \<open>maxlen\<close>; \<open>appendleft\<close> puts the item in front and then, when the deque is longer than
  \<open>maxlen\<close>, drops the item at the right end.
\<close>

record 'a deque =
  items :: "'a list"
  maxlen :: nat

definition deque_init :: "int \<Rightarrow> error + 'a deque" where
  "deque_init n = (if n < 0 then Inl ValueError else Inr \<lparr>items = [], maxlen = nat n\<rparr>)"

definition appendleft :: "'a \<Rightarrow> 'a deque \<Rightarrow> 'a deque" where
  "appendleft x d =
     (let ys = x # items d in
      d\<lparr>items := (if maxlen d < length ys then butlast ys else ys)\<rparr>)"

section \<open>main_tracker.py\<close>

definition FRAME_WIDTH :: int where "FRAME_WIDTH = 600"
definition SMOOTHING_WINDOW :: nat where "SMOOTHING_WINDOW = 30"

text \<open>
  The calls of the loop to the stabilizer, to the drawing and display routines and to the
  two leaf components are recorded in a trace, in the order the source makes them; the
  pixels drawn are not modelled. Console output is left out.
\<close>

datatype event =
    Resize | Stabilize | Warp | Polylines | Circle | Detect | Transform
  | Line point point int | Imshow string | WaitKey

text \<open>
  The collaborators of the driver: the OpenCV routines, and the stabilizer as a black box
  with a state of its own that returns a frame or nothing.
\<close>

record ('c, 's) env =
  lib :: "'c cv2"
  getPerspectiveTransform :: "(real \<times> real) list \<Rightarrow> (real \<times> real) list \<Rightarrow> mat3"
  warpPerspective :: "image \<Rightarrow> mat3 \<Rightarrow> int \<times> int \<Rightarrow> image"
  resize :: "image \<Rightarrow> int \<times> int \<Rightarrow> image"
  VidStab :: 's
  stabilize_frame :: "'s \<Rightarrow> image \<Rightarrow> nat \<Rightarrow> image option \<times> 's"

record args =
  video :: string
  buffer :: int

text \<open>The parser's default for \<open>--buffer\<close> is 64.\<close>

definition parse_args :: "string \<Rightarrow> int option \<Rightarrow> args" where
  "parse_args v b = \<lparr>video = v, buffer = (case b of None \<Rightarrow> 64 | Some n \<Rightarrow> n)\<rparr>"

definition draw_trajectory :: "point option list \<Rightarrow> int \<Rightarrow> event list" where
  "draw_trajectory pts buffer_size =
     concat (map (\<lambda>i.
        (case (pts ! (i - 1), pts ! i) of
           (Some p, Some q) \<Rightarrow>
             [Line p q
                (py_int (float_mul
                   (round64 (sqrt (round64 (real_of_int buffer_size / real (i + 1))))) 2.5))]
         | _ \<Rightarrow> [])) [1..<length pts])"

record 's state =
  pts_original :: "point option deque"
  pts_warped :: "point option deque"
  stabilizer :: 's
  trace :: "event list"

datatype control = Continue | Break

text \<open>The resize at the head of the loop body; \<open>frame.shape\<close> gives height and width.\<close>

definition pre_resize :: "('c, 's) env \<Rightarrow> image \<Rightarrow> error + image" where
  "pre_resize e frame =
     (let height = length frame;
          width = (case frame of [] \<Rightarrow> 0 | row # _ \<Rightarrow> length row)
      in case float_truediv (real_of_int FRAME_WIDTH) (real width) of
           Inl err \<Rightarrow> Inl err
         | Inr scale \<Rightarrow>
             (let dim = (FRAME_WIDTH, py_int (float_mul (real height) scale))
              in Inr (resize e frame dim)))"

text \<open>
  One pass through the body of \<open>while True\<close> for a frame that was read, with the key that
  \<open>waitKey\<close> returns if it is reached.
\<close>

definition loop_body ::
  "('c, 's) env \<Rightarrow> PerspectiveMapper \<Rightarrow> args \<Rightarrow> 's state \<Rightarrow> image \<Rightarrow> int \<Rightarrow>
     error + ('s state \<times> control)" where
  "loop_body e mapper a s frame0 key =
     (case pre_resize e frame0 of
        Inl err \<Rightarrow> Inl err
      | Inr frame \<Rightarrow>
          (let (frame_stabilized, stab) = stabilize_frame e (stabilizer s) frame SMOOTHING_WINDOW;
               s = s\<lparr>stabilizer := stab, trace := trace s @ [Resize, Stabilize]\<rparr>
           in case frame_stabilized of
                None \<Rightarrow> Inr (s, Continue)
              | Some frame_stabilized \<Rightarrow>
                  (let frame_warped = warp_frame (warpPerspective e) mapper frame_stabilized;
                       debug = [Warp, Polylines, Circle, Circle, Circle, Circle]
                   in case detect_ball (lib e) frame_stabilized of
                        Inl err \<Rightarrow> Inl err
                      | Inr (center, radius, msk) \<Rightarrow>
                          (let (center_warped, drawn) =
                                 (case center of
                                    None \<Rightarrow> (None, [])
                                  | Some c \<Rightarrow>
                                      (let cw = transform_point mapper center in
                                       (cw, [Circle, Circle, Transform] @
                                            (if cw \<noteq> None then [Circle] else []))));
                               po = appendleft center (pts_original s);
                               pw = appendleft center_warped (pts_warped s);
                               shown =
                                 draw_trajectory (items po) (buffer a) @
                                 draw_trajectory (items pw) (buffer a) @
                                 [Imshow ''1. STABILIZED View (Ball + Trajectory)'',
                                  Imshow ''2. 2D Top-Down Map View (Stabilized)'',
                                  Imshow ''3. Raw Detection Mask'', WaitKey];
                               s = s\<lparr>pts_original := po, pts_warped := pw,
                                      trace := trace s @ debug @ [Detect] @ drawn @ shown\<rparr>
                           in Inr (s, if key AND 255 = 113 then Break else Continue)))))"

text \<open>The loop: it ends when the video has no frame left or on \<open>break\<close>.\<close>

fun main_loop ::
  "('c, 's) env \<Rightarrow> PerspectiveMapper \<Rightarrow> args \<Rightarrow> 's state \<Rightarrow> (image \<times> int) list \<Rightarrow>
     error + 's state" where
  "main_loop e mapper a s [] = Inr s"
| "main_loop e mapper a s ((frame, key) # rest) =
     (case loop_body e mapper a s frame key of
        Inl err \<Rightarrow> Inl err
      | Inr (s', Break) \<Rightarrow> Inr s'
      | Inr (s', Continue) \<Rightarrow> main_loop e mapper a s' rest)"

text \<open>
  \<open>main\<close>, given the parsed arguments, whether the video could be opened, and the frames
  the video yields, each with the key pressed while it is shown. The result is \<open>None\<close>
  when the video could not be opened, and the state at the end of the loop otherwise.
\<close>

definition init_state :: "('c, 's) env \<Rightarrow> args \<Rightarrow> error + 's state" where
  "init_state e a =
     (case deque_init (buffer a) of
        Inl err \<Rightarrow> Inl err
      | Inr po \<Rightarrow>
          (case deque_init (buffer a) of
             Inl err \<Rightarrow> Inl err
           | Inr pw \<Rightarrow>
               Inr \<lparr>pts_original = po, pts_warped = pw, stabilizer = VidStab e, trace = []\<rparr>))"

definition main ::
  "('c, 's) env \<Rightarrow> args \<Rightarrow> bool \<Rightarrow> (image \<times> int) list \<Rightarrow> error + 's state option" where
  "main e a isOpened frames =
     (if \<not> isOpened then Inr None
      else
        (let mapper = PerspectiveMapper_init (getPerspectiveTransform e) FRAME_WIDTH in
         case init_state e a of
           Inl err \<Rightarrow> Inl err
         | Inr s \<Rightarrow>
             (case main_loop e mapper a s frames of
                Inl err \<Rightarrow> Inl err
              | Inr s' \<Rightarrow> Inr (Some s'))))"

section \<open>Predicates of the specification\<close>

text \<open>
  The constraints the specification puts on a ball-like contour: area at least 100, a
  nonzero enclosing radius, circularity above 0.7, area below 8000.
\<close>

definition qualifies :: "'c cv2 \<Rightarrow> 'c \<Rightarrow> bool" where
  "qualifies cv c \<longleftrightarrow>
     100 \<le> contourArea cv c \<and>
     snd (minEnclosingCircle cv c) \<noteq> 0 \<and>
     0.7 < contourArea cv c / (pi * snd (minEnclosingCircle cv c) ^ 2) \<and>
     contourArea cv c < 8000"

text \<open>The contours extracted from the cleaned mask of a frame (step 4).\<close>

definition found_contours :: "'c cv2 \<Rightarrow> image \<Rightarrow> 'c list" where
  "found_contours cv frame = findContours cv (ball_mask cv frame)"

text \<open>
  A red pixel of the HSV image: hue in [0, 10] or in [170, 179], saturation at least 100,
  value at least 50.
\<close>

definition is_red :: "pixel \<Rightarrow> bool" where
  "is_red px =
     (case px of (h, s, v) \<Rightarrow>
        (unat h \<le> 10 \<or> (170 \<le> unat h \<and> unat h \<le> 179)) \<and> 100 \<le> unat s \<and> 50 \<le> unat v)"

definition all_zero :: "mask \<Rightarrow> bool" where
  "all_zero m = list_all (list_all (\<lambda>p. p = 0)) m"

text \<open>
  The corners of the configured source quadrilateral and of the destination rectangle, and
  three measures of closeness: a real point within 1 of an integer point in each
  coordinate, an integer point within 1 of another, and a real point within \<open>2 ^ -16\<close>
  of an integer point (less than half the spacing of single precision numbers between 256
  and 1024).
\<close>

definition src_corners :: "point list" where
  "src_corners = [(220, 100), (420, 100), (500, 590), (140, 590)]"

definition dst_corners :: "point list" where
  "dst_corners = [(0, 0), (399, 0), (399, 899), (0, 899)]"

definition real_point :: "point \<Rightarrow> real \<times> real" where
  "real_point p = (real_of_int (fst p), real_of_int (snd p))"

definition near :: "real \<times> real \<Rightarrow> point \<Rightarrow> bool" where
  "near p q \<longleftrightarrow>
     \<bar>fst p - real_of_int (fst q)\<bar> < 1 \<and> \<bar>snd p - real_of_int (snd q)\<bar> < 1"

definition within1 :: "point \<Rightarrow> point \<Rightarrow> bool" where
  "within1 p q \<longleftrightarrow> \<bar>fst p - fst q\<bar> \<le> 1 \<and> \<bar>snd p - snd q\<bar> \<le> 1"

definition tight :: "real \<times> real \<Rightarrow> point \<Rightarrow> bool" where
  "tight p q \<longleftrightarrow>
     \<bar>fst p - real_of_int (fst q)\<bar> < 1 / 2 ^ 16 \<and>
     \<bar>snd p - real_of_int (snd q)\<bar> < 1 / 2 ^ 16"

text \<open>
  One pass of the selection loop, as a function of the loop state: the contour replaces
  the tracked one when it qualifies and is strictly larger.
\<close>

definition keep :: "'c cv2 \<Rightarrow> 'c \<Rightarrow> 'c option \<times> real \<Rightarrow> 'c option \<times> real" where
  "keep cv c st =
     (if qualifies cv c \<and> snd st < contourArea cv c then (Some c, contourArea cv c) else st)"

text \<open>The loop invariant: the tracked contour qualifies and \<open>max_area\<close> is its area.\<close>

definition tracked :: "'c cv2 \<Rightarrow> 'c option \<times> real \<Rightarrow> bool" where
  "tracked cv st \<longleftrightarrow>
     (case fst st of
        None \<Rightarrow> snd st = 0
      | Some c \<Rightarrow> qualifies cv c \<and> contourArea cv c = snd st)"

text \<open>
  The invariant of the two trajectory buffers: both have the configured capacity, hold
  at most that many entries, and have the same length.
\<close>

definition buffers_ok :: "nat \<Rightarrow> 's state \<Rightarrow> bool" where
  "buffers_ok cap s \<longleftrightarrow>
     maxlen (pts_original s) = cap \<and> maxlen (pts_warped s) = cap \<and>
     length (items (pts_original s)) \<le> cap \<and>
     length (items (pts_warped s)) = length (items (pts_original s))"

section \<open>A test double of the collaborators\<close>

text \<open>
  A small instance of the library and of the stabilizer, on which the theorems below are
  run: the blur and the colour conversion return their input, a non-blank mask yields
  four contours, and their measurements are given by tables.
\<close>

datatype blob = Speck | RedBall | Shirt | Stripe

fun stub_area :: "blob \<Rightarrow> real" where
  "stub_area Speck = 50"
| "stub_area RedBall = 400"
| "stub_area Shirt = 9000"
| "stub_area Stripe = 300"

fun stub_circle :: "blob \<Rightarrow> (real \<times> real) \<times> real" where
  "stub_circle Speck = ((10, 10), 4)"
| "stub_circle RedBall = ((300, 400), 11)"
| "stub_circle Shirt = ((100, 200), 54)"
| "stub_circle Stripe = ((50, 60), 40)"

definition stub_moments :: "blob \<Rightarrow> Moments" where
  "stub_moments c =
     \<lparr>m00 = stub_area c,
      m10 = stub_area c * fst (fst (stub_circle c)) + 1,
      m01 = stub_area c * snd (fst (stub_circle c)) + 1\<rparr>"

definition cv_stub :: "blob cv2" where
  "cv_stub =
     \<lparr>GaussianBlur = (\<lambda>src ksize sigma. src),
      cvtColor_BGR2HSV = (\<lambda>src. src),
      findContours = (\<lambda>m. if all_zero m then [] else [Speck, RedBall, Shirt, Stripe]),
      contourArea = stub_area,
      minEnclosingCircle = stub_circle,
      moments = stub_moments\<rparr>"

definition red_frame :: image where
  "red_frame = [[(5, 200, 200)]]"

text \<open>A row of six red pixels and a green one, and a row with a single red pixel.\<close>

definition streak_frame :: image where
  "streak_frame =
     [[(5, 200, 200), (5, 200, 200), (5, 200, 200), (5, 200, 200), (5, 200, 200),
       (5, 200, 200), (60, 200, 200)]]"

definition speckle_frame :: image where
  "speckle_frame = [[(60, 200, 200), (5, 200, 200), (60, 200, 200)]]"

definition green_frame :: image where
  "green_frame = [[(60, 200, 200), (60, 200, 200)], [(5, 20, 200), (175, 200, 10)]]"

text \<open>
  The exact homography of the configured corners, and a stabilizer that returns nothing
  for its first two frames.
\<close>

definition exact_matrix :: mat3 where
  "exact_matrix =
     ((19551 / 8200, 399 / 1025, - 231021 / 410),
      (0, 8091 / 2050, - 16182 / 41),
      (0, 2 / 1025, 1))"

definition env_stub :: "(blob, nat) env" where
  "env_stub =
     \<lparr>lib = cv_stub,
      getPerspectiveTransform = (\<lambda>src dst. exact_matrix),
      warpPerspective = (\<lambda>src m dsize. src),
      resize = (\<lambda>src dsize. src),
      VidStab = 0,
      stabilize_frame = (\<lambda>n frame w. (if n < 2 then None else Some frame, Suc n))\<rparr>"

text \<open>A run of the double: a capacity of two entries and a video of six frames.\<close>

definition stub_mapper :: PerspectiveMapper where
  "stub_mapper = PerspectiveMapper_init (getPerspectiveTransform env_stub) FRAME_WIDTH"

definition stub_args :: args where
  "stub_args = parse_args ''rgb.avi'' (Some 2)"

definition stub_video :: "(image \<times> int) list" where
  "stub_video =
     [(green_frame, 0), (red_frame, 0), (red_frame, 0), (green_frame, 0), (red_frame, 113),
      (red_frame, 0)]"

definition stub_state :: "nat \<Rightarrow> nat state" where
  "stub_state n =
     \<lparr>pts_original = \<lparr>items = [], maxlen = 2\<rparr>, pts_warped = \<lparr>items = [], maxlen = 2\<rparr>,
      stabilizer = n, trace = []\<rparr>"

section \<open>The selection loop\<close>

lemma filter_contours_Cons:
  "filter_contours cv (c # cnts) st = filter_contours cv cnts (keep cv c st)"
  by (cases st) (auto simp: Let_def truediv_def qualifies_def keep_def split: prod.splits)

lemma filter_contours_fold: "filter_contours cv cnts st = Inr (fold (keep cv) cnts st)"
proof (induction cnts arbitrary: st)
  case Nil
  show ?case by simp
next
  case (Cons c cnts)
  show ?case unfolding filter_contours_Cons Cons.IH by simp
qed

lemma keep_tracked: "tracked cv st \<Longrightarrow> tracked cv (keep cv c st)"
  by (auto simp: tracked_def keep_def split: option.splits)

lemma fold_keep_tracked: "tracked cv st \<Longrightarrow> tracked cv (fold (keep cv) cnts st)"
  by (induction cnts arbitrary: st) (simp_all add: keep_tracked)

lemma keep_mono: "snd st \<le> snd (keep cv c st)"
  by (simp add: keep_def)

lemma fold_keep_mono: "snd st \<le> snd (fold (keep cv) cnts st)"
proof (induction cnts arbitrary: st)
  case Nil
  show ?case by simp
next
  case (Cons c cnts)
  have "snd st \<le> snd (keep cv c st)" by (rule keep_mono)
  also have "\<dots> \<le> snd (fold (keep cv) cnts (keep cv c st))" by (rule Cons.IH)
  finally show ?case by simp
qed

lemma fold_keep_upper:
  "c \<in> set cnts \<Longrightarrow> qualifies cv c \<Longrightarrow> contourArea cv c \<le> snd (fold (keep cv) cnts st)"
proof (induction cnts arbitrary: st)
  case Nil
  then show ?case by simp
next
  case (Cons d cnts)
  show ?case
  proof (cases "c = d")
    case True
    with Cons.prems have "contourArea cv c \<le> snd (keep cv d st)"
      by (simp add: keep_def)
    also have "\<dots> \<le> snd (fold (keep cv) cnts (keep cv d st))" by (rule fold_keep_mono)
    finally show ?thesis by simp
  next
    case False
    with Cons.prems have "c \<in> set cnts" by simp
    from Cons.IH [OF this Cons.prems(2)] show ?thesis by simp
  qed
qed

lemma fold_keep_origin:
  "fst (fold (keep cv) cnts st) = Some c \<Longrightarrow> fst st = Some c \<or> c \<in> set cnts"
proof (induction cnts arbitrary: st)
  case Nil
  then show ?case by simp
next
  case (Cons d cnts)
  from Cons.prems have "fst (keep cv d st) = Some c \<or> c \<in> set cnts"
    using Cons.IH [of "keep cv d st"] by simp
  then show ?case by (auto simp: keep_def split: if_splits)
qed

lemma fold_keep_None:
  "fst (fold (keep cv) cnts (None, 0)) = None \<longleftrightarrow> \<not> list_ex (qualifies cv) cnts"
proof
  assume n: "fst (fold (keep cv) cnts (None, 0)) = None"
  have t: "tracked cv (fold (keep cv) cnts (None, 0))"
    by (rule fold_keep_tracked) (simp add: tracked_def)
  from n t have z: "snd (fold (keep cv) cnts (None, 0)) = 0" by (simp add: tracked_def)
  show "\<not> list_ex (qualifies cv) cnts"
  proof
    assume "list_ex (qualifies cv) cnts"
    then obtain c where c: "c \<in> set cnts" "qualifies cv c" by (auto simp: list_ex_iff)
    from fold_keep_upper [OF c, of "(None, 0)"] z have "contourArea cv c \<le> 0" by simp
    with c(2) show False by (simp add: qualifies_def)
  qed
next
  assume "\<not> list_ex (qualifies cv) cnts"
  then have "fold (keep cv) cnts (None, 0) = (None, 0)"
    by (induction cnts) (simp_all add: keep_def)
  then show "fst (fold (keep cv) cnts (None, 0)) = None" by simp
qed

section \<open>Blank masks\<close>

lemma unat_le_255: "unat (c :: 8 word) \<le> 255"
  using unsigned_less [of c, where 'a = nat] by simp

lemma is_red_in_bounds:
  "is_red px \<longleftrightarrow> in_bounds redLower1 redUpper1 px \<or> in_bounds redLower2 redUpper2 px"
  by (cases px)
    (auto simp: is_red_def in_bounds_def redLower1_def redUpper1_def redLower2_def
      redUpper2_def unat_le_255)

lemma all_zero_nth: "all_zero m \<Longrightarrow> r < length m \<Longrightarrow> c < length (m ! r) \<Longrightarrow> m ! r ! c = 0"
  by (simp add: all_zero_def list_all_length)

lemma inRange_all_zero:
  "list_all (list_all (\<lambda>px. \<not> in_bounds lo hi px)) src \<Longrightarrow> all_zero (inRange src lo hi)"
  by (simp add: all_zero_def inRange_def list_all_length)

lemma bitwise_or_all_zero: "all_zero a \<Longrightarrow> all_zero b \<Longrightarrow> all_zero (bitwise_or a b)"
  by (simp add: all_zero_def bitwise_or_def list_all_length)

lemma fold_min_from_zero: "fold min xs (0 :: 8 word) = 0"
  by (induction xs) simp_all

lemma fold_min_zero: "(0 :: 8 word) \<in> set xs \<Longrightarrow> fold min xs y = 0"
proof (induction xs arbitrary: y)
  case Nil
  then show ?case by simp
next
  case (Cons x xs)
  show ?case
  proof (cases "x = 0")
    case True
    then show ?thesis by (simp add: fold_min_from_zero)
  next
    case False
    with Cons.prems have "0 \<in> set xs" by simp
    from Cons.IH [OF this] show ?thesis by simp
  qed
qed

lemma fold_max_zero: "list_all (\<lambda>x. x = 0) xs \<Longrightarrow> fold max xs (0 :: 8 word) = 0"
  by (induction xs) simp_all

lemma window_zero: "all_zero m \<Longrightarrow> list_all (\<lambda>x. x = 0) (morph_window m krn i j)"
  by (auto simp: morph_window_def Let_def list_all_iff all_zero_nth)

lemma ones_5_5: "ones (5, 5) = replicate 5 1 # replicate 4 (replicate 5 1)"
  unfolding ones_def by (subst replicate_Suc [symmetric]) simp

lemma window_centre:
  assumes "i < length m" "j < length (m ! i)"
  shows "m ! i ! j \<in> set (morph_window m (ones (5, 5)) i j)"
proof -
  have k: "length (ones (5, 5)) = 5"
    "(case ones (5, 5) of [] \<Rightarrow> 0 | row # _ \<Rightarrow> length row div 2) = 2"
    "ones (5, 5) ! 2 = replicate 5 1" "replicate 5 (1 :: 8 word) ! 2 = 1"
    by (simp_all add: ones_5_5)
  show ?thesis
    unfolding morph_window_def Let_def
    apply simp
    apply (rule bexI [of _ 2])
     apply (simp add: k)
     apply (rule bexI [of _ 2])
    using assms apply (simp_all add: k)
    done
qed

lemma erode1_all_zero: "all_zero m \<Longrightarrow> all_zero (erode1 (ones (5, 5)) m)"
proof -
  assume z: "all_zero m"
  have "fold min (morph_window m (ones (5, 5)) i j) 255 = 0"
    if "i < length m" "j < length (m ! i)" for i j
  proof -
    from window_centre [OF that] all_zero_nth [OF z that]
    have "0 \<in> set (morph_window m (ones (5, 5)) i j)" by simp
    then show ?thesis by (rule fold_min_zero)
  qed
  then show ?thesis by (simp add: all_zero_def erode1_def list_all_length)
qed

lemma dilate1_all_zero: "all_zero m \<Longrightarrow> all_zero (dilate1 krn m)"
proof -
  assume z: "all_zero m"
  have "fold max (morph_window m krn i j) 0 = 0" for i j
    by (rule fold_max_zero) (rule window_zero [OF z])
  then show ?thesis by (simp add: all_zero_def dilate1_def list_all_length)
qed

lemma erode_all_zero: "all_zero m \<Longrightarrow> all_zero (erode m (ones (5, 5)) n)"
  unfolding erode_def by (induction n) (simp_all add: erode1_all_zero)

lemma dilate_all_zero: "all_zero m \<Longrightarrow> all_zero (dilate m krn n)"
  unfolding dilate_def by (induction n) (simp_all add: dilate1_all_zero)

lemma ball_mask_all_zero:
  assumes "list_all (list_all (\<lambda>px. \<not> is_red px)) (hsv_of cv frame)"
  shows "all_zero (ball_mask cv frame)"
proof -
  from assms have
    "list_all (list_all (\<lambda>px. \<not> in_bounds redLower1 redUpper1 px)) (hsv_of cv frame)"
    "list_all (list_all (\<lambda>px. \<not> in_bounds redLower2 redUpper2 px)) (hsv_of cv frame)"
    by (simp_all add: is_red_in_bounds list_all_length)
  then have "all_zero (bitwise_or (inRange (hsv_of cv frame) redLower1 redUpper1)
      (inRange (hsv_of cv frame) redLower2 redUpper2))"
    by (intro bitwise_or_all_zero inRange_all_zero)
  then show ?thesis
    unfolding ball_mask_def Let_def by (intro dilate_all_zero erode_all_zero)
qed

section \<open>Properties of detect_ball\<close>

lemma detect_ball_unfold:
  "detect_ball cv frame =
     (case fst (fold (keep cv) (found_contours cv frame) (None, 0)) of
        None \<Rightarrow> Inr (None, 0, ball_mask cv frame)
      | Some c \<Rightarrow>
          if m00 (moments cv c) = 0 then Inr (None, 0, ball_mask cv frame)
          else Inr (Some (py_int (m10 (moments cv c) / m00 (moments cv c)),
                          py_int (m01 (moments cv c) / m00 (moments cv c))),
                    snd (minEnclosingCircle cv c), ball_mask cv frame))"
  by (simp add: detect_ball_def found_contours_def filter_contours_fold Let_def truediv_def
      split: prod.splits option.splits)

lemma best_tracked: "tracked cv (fold (keep cv) cnts (None, 0))"
  by (rule fold_keep_tracked) (simp add: tracked_def)

lemma best_qualifies:
  assumes "fst (fold (keep cv) cnts (None, 0)) = Some c"
  shows "c \<in> set cnts" and "qualifies cv c"
    and "snd (fold (keep cv) cnts (None, 0)) = contourArea cv c"
proof -
  from fold_keep_origin [OF assms] show "c \<in> set cnts" by simp
  from best_tracked [of cv cnts] assms
  show "qualifies cv c" and "snd (fold (keep cv) cnts (None, 0)) = contourArea cv c"
    by (simp_all add: tracked_def)
qed

lemma stub_qualifies:
  "\<not> qualifies cv_stub Speck" "qualifies cv_stub RedBall" "\<not> qualifies cv_stub Shirt"
  "\<not> qualifies cv_stub Stripe"
proof -
  have "pi * 121 * 7 < 4000" using pi_less_4 by simp
  then show "qualifies cv_stub RedBall"
    by (simp add: qualifies_def cv_stub_def field_simps)
  have "3000 \<le> pi * 1600 * 7" using pi_ge_two by simp
  then show "\<not> qualifies cv_stub Stripe"
    by (simp add: qualifies_def cv_stub_def field_simps)
  show "\<not> qualifies cv_stub Speck" "\<not> qualifies cv_stub Shirt"
    by (simp_all add: qualifies_def cv_stub_def)
qed

lemma red_frame_mask: "ball_mask cv_stub red_frame = [[255]]"
  by code_simp

lemma red_frame_contours: "found_contours cv_stub red_frame = [Speck, RedBall, Shirt, Stripe]"
  by (simp add: found_contours_def red_frame_mask)
    (simp add: cv_stub_def all_zero_def)

lemma red_frame_fold:
  "fold (keep cv_stub) (found_contours cv_stub red_frame) (None, 0) = (Some RedBall, 400)"
  unfolding red_frame_contours
  by (simp add: keep_def stub_qualifies) (simp add: cv_stub_def)

lemma red_frame_detect: "detect_ball cv_stub red_frame = Inr (Some (300, 400), 11, [[255]])"
  by (simp add: detect_ball_unfold red_frame_fold red_frame_mask)
    (simp add: cv_stub_def stub_moments_def py_int_def)

lemma green_frame_mask: "ball_mask cv_stub green_frame = [[0, 0], [0, 0]]"
  by code_simp

lemma green_frame_contours: "found_contours cv_stub green_frame = []"
  by (simp add: found_contours_def green_frame_mask)
    (simp add: cv_stub_def all_zero_def)

text \<open>
  C2. A centre is returned only if some extracted contour has area at least 100, a nonzero
  enclosing radius, circularity above 0.7 and area below 8000. The loop selects a contour
  exactly when one satisfies these constraints, and the selected one has the largest area
  among them. A contour of area 8000 or more, and a contour of circularity 0.7 or less,
  is never the selected one.
\<close>

theorem detect_ball_selects_largest_qualifying:
  "\<exists>best.
     filter_contours cv (found_contours cv frame) (None, 0) =
       Inr (best, case best of None \<Rightarrow> 0 | Some c \<Rightarrow> contourArea cv c) \<and>
     (best = None \<longleftrightarrow> \<not> list_ex (qualifies cv) (found_contours cv frame)) \<and>
     (\<forall>c. best = Some c \<longrightarrow>
        c \<in> set (found_contours cv frame) \<and> qualifies cv c \<and>
        (\<forall>c' \<in> set (found_contours cv frame).
           qualifies cv c' \<longrightarrow> contourArea cv c' \<le> contourArea cv c)) \<and>
     (\<forall>c \<in> set (found_contours cv frame).
        8000 \<le> contourArea cv c \<or>
        contourArea cv c / (pi * snd (minEnclosingCircle cv c) ^ 2) \<le> 0.7 \<longrightarrow>
        best \<noteq> Some c) \<and>
     (\<forall>center radius m.
        detect_ball cv frame = Inr (Some center, radius, m) \<longrightarrow>
        (\<exists>c \<in> set (found_contours cv frame). best = Some c \<and> qualifies cv c))"
proof -
  define cnts where "cnts = found_contours cv frame"
  define st where "st = fold (keep cv) cnts (None, 0)"
  have run: "filter_contours cv cnts (None, 0) = Inr st"
    by (simp add: st_def filter_contours_fold)
  have area: "snd st = (case fst st of None \<Rightarrow> 0 | Some c \<Rightarrow> contourArea cv c)"
    using best_tracked [of cv cnts] by (simp add: st_def tracked_def split: option.splits)
  have none: "fst st = None \<longleftrightarrow> \<not> list_ex (qualifies cv) cnts"
    unfolding st_def by (rule fold_keep_None)
  have sel: "c \<in> set cnts \<and> qualifies cv c \<and>
      (\<forall>c' \<in> set cnts. qualifies cv c' \<longrightarrow> contourArea cv c' \<le> contourArea cv c)"
    if "fst st = Some c" for c
  proof -
    from that have b: "fst (fold (keep cv) cnts (None, 0)) = Some c" by (simp add: st_def)
    have "contourArea cv c' \<le> contourArea cv c" if "c' \<in> set cnts" "qualifies cv c'" for c'
      using fold_keep_upper [OF that, of "(None, 0)"] best_qualifies(3) [OF b] by simp
    with best_qualifies(1,2) [OF b] show ?thesis by blast
  qed
  have rej: "fst st \<noteq> Some c"
    if "8000 \<le> contourArea cv c \<or>
        contourArea cv c / (pi * snd (minEnclosingCircle cv c) ^ 2) \<le> 0.7" for c
  proof
    assume "fst st = Some c"
    from sel [OF this] have "qualifies cv c" by simp
    with that show False by (auto simp: qualifies_def)
  qed
  have ret: "\<exists>c \<in> set cnts. fst st = Some c \<and> qualifies cv c"
    if "detect_ball cv frame = Inr (Some center, radius, m)" for center radius m
  proof (cases "fst st")
    case None
    with that show ?thesis by (simp add: detect_ball_unfold st_def cnts_def)
  next
    case (Some c)
    from sel [OF this] Some show ?thesis by blast
  qed
  have "filter_contours cv cnts (None, 0) =
      Inr (fst st, case fst st of None \<Rightarrow> 0 | Some c \<Rightarrow> contourArea cv c)"
    using run area by (cases st) simp
  with none sel rej ret show ?thesis
    unfolding cnts_def [symmetric] by (intro exI [of _ "fst st"]) blast
qed

theorem detect_ball_selects_largest_qualifying_witness:
  "filter_contours cv_stub (found_contours cv_stub red_frame) (None, 0) = Inr (Some RedBall, 400) \<and>
   RedBall \<in> set (found_contours cv_stub red_frame) \<and> qualifies cv_stub RedBall \<and>
   contourArea cv_stub Shirt = 9000 \<and> Shirt \<in> set (found_contours cv_stub red_frame) \<and>
   detect_ball cv_stub red_frame = Inr (Some (300, 400), 11, [[255]])"
proof -
  from detect_ball_selects_largest_qualifying [of cv_stub red_frame]
  obtain best where
    run: "filter_contours cv_stub (found_contours cv_stub red_frame) (None, 0) =
      Inr (best, case best of None \<Rightarrow> 0 | Some c \<Rightarrow> contourArea cv_stub c)"
    and sel: "\<forall>c. best = Some c \<longrightarrow>
      c \<in> set (found_contours cv_stub red_frame) \<and> qualifies cv_stub c \<and>
      (\<forall>c' \<in> set (found_contours cv_stub red_frame).
         qualifies cv_stub c' \<longrightarrow> contourArea cv_stub c' \<le> contourArea cv_stub c)"
    by (elim exE conjE)
  from run have best: "best = Some RedBall"
    by (simp add: filter_contours_fold red_frame_fold)
  note det = red_frame_detect
  have "contourArea cv_stub Shirt = 9000" "contourArea cv_stub RedBall = 400"
    by (simp_all add: cv_stub_def)
  with run sel best det show ?thesis by (simp add: red_frame_contours)
qed

text \<open>
  C4. When the loop has selected a contour, the returned centre is the truncated centroid
  \<open>(int (M10 / M00), int (M01 / M00))\<close> of that contour, returned with the radius of
  its minimal enclosing circle; when the contour's \<open>M00\<close> is zero, no detection is
  reported.
\<close>

theorem detect_ball_centroid_of_best:
  assumes "filter_contours cv (found_contours cv frame) (None, 0) = Inr (Some c, a)"
  shows "detect_ball cv frame =
     (if m00 (moments cv c) = 0 then Inr (None, 0, ball_mask cv frame)
      else Inr (Some (py_int (m10 (moments cv c) / m00 (moments cv c)),
                      py_int (m01 (moments cv c) / m00 (moments cv c))),
                snd (minEnclosingCircle cv c), ball_mask cv frame))"
proof -
  from assms have "fst (fold (keep cv) (found_contours cv frame) (None, 0)) = Some c"
    by (simp add: filter_contours_fold)
  then show ?thesis by (simp add: detect_ball_unfold)
qed

theorem detect_ball_centroid_of_best_witness:
  "detect_ball cv_stub red_frame = Inr (Some (300, 400), 11, [[255]]) \<and>
   m10 (moments cv_stub RedBall) / m00 (moments cv_stub RedBall) = 120001 / 400 \<and>
   m01 (moments cv_stub RedBall) / m00 (moments cv_stub RedBall) = 160001 / 400 \<and>
   minEnclosingCircle cv_stub RedBall = ((300, 400), 11)"
proof -
  have run: "filter_contours cv_stub (found_contours cv_stub red_frame) (None, 0) =
      Inr (Some RedBall, 400)"
    by (simp add: filter_contours_fold red_frame_fold)
  have m: "moments cv_stub RedBall = \<lparr>m00 = 400, m10 = 120001, m01 = 160001\<rparr>"
    "minEnclosingCircle cv_stub RedBall = ((300, 400), 11)"
    by (simp_all add: cv_stub_def stub_moments_def)
  from detect_ball_centroid_of_best [OF run] show ?thesis
    by (simp add: m red_frame_mask py_int_def)
qed

text \<open>
  C9. The returned radius is nonzero exactly when a centre is returned; given that the
  library's enclosing circles have non-negative radii, it is strictly positive exactly
  when a centre is returned, and zero otherwise.
\<close>

theorem detect_ball_radius_positive_iff_center:
  "\<exists>center radius m.
     detect_ball cv frame = Inr (center, radius, m) \<and>
     (radius \<noteq> 0 \<longleftrightarrow> center \<noteq> None) \<and>
     (list_all (\<lambda>c. 0 \<le> snd (minEnclosingCircle cv c)) (found_contours cv frame) \<longrightarrow>
        (0 < radius \<longleftrightarrow> center \<noteq> None) \<and> (center = None \<longrightarrow> radius = 0))"
proof (cases "fst (fold (keep cv) (found_contours cv frame) (None, 0))")
  case None
  then show ?thesis by (simp add: detect_ball_unfold)
next
  case (Some c)
  from best_qualifies(1,2) [OF Some]
  have c: "c \<in> set (found_contours cv frame)" "snd (minEnclosingCircle cv c) \<noteq> 0"
    by (simp_all add: qualifies_def)
  show ?thesis
  proof (cases "m00 (moments cv c) = 0")
    case True
    with Some show ?thesis by (simp add: detect_ball_unfold)
  next
    case False
    have "0 < snd (minEnclosingCircle cv c)"
      if "list_all (\<lambda>c. 0 \<le> snd (minEnclosingCircle cv c)) (found_contours cv frame)"
      using that c by (auto simp: list_all_iff order_less_le)
    with Some False c(2) show ?thesis by (simp add: detect_ball_unfold)
  qed
qed

theorem detect_ball_radius_positive_iff_center_witness:
  "detect_ball cv_stub red_frame = Inr (Some (300, 400), 11, [[255]]) \<and>
   list_all (\<lambda>c. 0 \<le> snd (minEnclosingCircle cv_stub c)) (found_contours cv_stub red_frame)"
proof -
  have nn: "list_all (\<lambda>c. 0 \<le> snd (minEnclosingCircle cv_stub c))
      (found_contours cv_stub red_frame)"
    unfolding red_frame_contours by (simp add: cv_stub_def)
  have m: "moments cv_stub RedBall = \<lparr>m00 = 400, m10 = 120001, m01 = 160001\<rparr>"
    "minEnclosingCircle cv_stub RedBall = ((300, 400), 11)"
    by (simp_all add: cv_stub_def stub_moments_def)
  from detect_ball_radius_positive_iff_center [of cv_stub red_frame] nn
  obtain center radius m where
    "detect_ball cv_stub red_frame = Inr (center, radius, m)"
    "0 < radius \<longleftrightarrow> center \<noteq> None"
    by blast
  then have "0 < radius" "radius = 11"
    by (simp_all add: red_frame_detect)
  with nn show ?thesis by (simp add: red_frame_detect)
qed

text \<open>
  C3. When no pixel of the blurred, HSV-converted frame is red, and the contour extraction
  finds no contour in a blank mask, \<open>detect_ball\<close> returns an absent centre, radius zero
  and an all-zero mask.
\<close>

theorem detect_ball_no_red_pixels:
  assumes "\<forall>m. all_zero m \<longrightarrow> findContours cv m = []"
    and "list_all (list_all (\<lambda>px. \<not> is_red px)) (hsv_of cv frame)"
  shows "detect_ball cv frame = Inr (None, 0, ball_mask cv frame) \<and>
     all_zero (ball_mask cv frame)"
proof -
  from assms(2) have z: "all_zero (ball_mask cv frame)" by (rule ball_mask_all_zero)
  with assms(1) have "found_contours cv frame = []" by (simp add: found_contours_def)
  with z show ?thesis by (simp add: detect_ball_unfold)
qed

theorem detect_ball_no_red_pixels_witness:
  "detect_ball cv_stub green_frame = Inr (None, 0, [[0, 0], [0, 0]]) \<and>
   hsv_of cv_stub green_frame = [[(60, 200, 200), (60, 200, 200)], [(5, 20, 200), (175, 200, 10)]]"
proof -
  have c: "\<forall>m. all_zero m \<longrightarrow> findContours cv_stub m = []"
    by (simp add: cv_stub_def)
  have h: "hsv_of cv_stub green_frame =
      [[(60, 200, 200), (60, 200, 200)], [(5, 20, 200), (175, 200, 10)]]"
    by (simp add: hsv_of_def cv_stub_def green_frame_def)
  have r: "list_all (list_all (\<lambda>px. \<not> is_red px)) (hsv_of cv_stub green_frame)"
    unfolding h by (simp add: is_red_def)
  from detect_ball_no_red_pixels [OF c r] h show ?thesis
    by (simp add: green_frame_mask)
qed

lemma detect_ball_checked_empty: "empty_image frame \<Longrightarrow> detect_ball_checked cv frame = Inl Cv2Error"
  by (simp add: detect_ball_checked_def cv2_GaussianBlur_def)

lemma detect_ball_checked_pixels:
  "\<not> empty_image frame \<Longrightarrow> detect_ball_checked cv frame = detect_ball cv frame"
  by (simp add: detect_ball_checked_def cv2_GaussianBlur_def)

lemma ball_mask_unfold:
  "ball_mask cv frame =
     dilate
       (erode
          (bitwise_or
             (inRange (cvtColor_BGR2HSV cv (GaussianBlur cv frame (11, 11) 0))
                redLower1 redUpper1)
             (inRange (cvtColor_BGR2HSV cv (GaussianBlur cv frame (11, 11) 0))
                redLower2 redUpper2))
          (ones (5, 5)) 2)
       (ones (5, 5)) 2"
  by (simp add: ball_mask_def hsv_of_def Let_def)

lemma streak_frame_mask: "ball_mask cv_stub streak_frame = [[255, 255, 255, 255, 255, 255, 0]]"
  by code_simp

lemma speckle_frame_mask: "ball_mask cv_stub speckle_frame = [[0, 0, 0]]"
  by code_simp

lemma streak_frame_contours: "found_contours cv_stub streak_frame = [Speck, RedBall, Shirt, Stripe]"
  by (simp add: found_contours_def streak_frame_mask)
    (simp add: cv_stub_def all_zero_def)

lemma speckle_frame_contours: "found_contours cv_stub speckle_frame = []"
  by (simp add: found_contours_def speckle_frame_mask)
    (simp add: cv_stub_def all_zero_def)

lemma streak_frame_detect:
  "detect_ball cv_stub streak_frame =
     Inr (Some (300, 400), 11, [[255, 255, 255, 255, 255, 255, 0]])"
proof -
  have "fold (keep cv_stub) (found_contours cv_stub streak_frame) (None, 0) = (Some RedBall, 400)"
    using red_frame_fold by (simp add: streak_frame_contours red_frame_contours)
  then show ?thesis
    by (simp add: detect_ball_unfold streak_frame_mask)
      (simp add: cv_stub_def stub_moments_def py_int_def)
qed


text \<open>
  C7. On a frame with no pixel the first library call of \<open>detect_ball\<close> raises
  \<open>cv2.error\<close>. On every other frame \<open>detect_ball\<close> raises no exception and returns
  the cleaned mask: the two colour masks of the blurred HSV image, combined, eroded twice
  and dilated twice with the 5x5 kernel; when no contour qualifies, it returns it with an
  absent centre and radius zero.
\<close>

theorem detect_ball_checked_returns_mask:
  "(empty_image frame \<longrightarrow> detect_ball_checked cv frame = Inl Cv2Error) \<and>
   (\<not> empty_image frame \<longrightarrow>
      (\<exists>center radius.
         detect_ball_checked cv frame =
           Inr (center, radius,
             dilate
               (erode
                  (bitwise_or
                     (inRange (cvtColor_BGR2HSV cv (GaussianBlur cv frame (11, 11) 0))
                        redLower1 redUpper1)
                     (inRange (cvtColor_BGR2HSV cv (GaussianBlur cv frame (11, 11) 0))
                        redLower2 redUpper2))
                  (ones (5, 5)) 2)
               (ones (5, 5)) 2) \<and>
         (\<not> list_ex (qualifies cv) (found_contours cv frame) \<longrightarrow>
            center = None \<and> radius = 0)))"
proof (intro conjI impI)
  assume "empty_image frame"
  then show "detect_ball_checked cv frame = Inl Cv2Error" by (rule detect_ball_checked_empty)
next
  assume ne: "\<not> empty_image frame"
  show "\<exists>center radius.
      detect_ball_checked cv frame =
        Inr (center, radius,
          dilate
            (erode
               (bitwise_or
                  (inRange (cvtColor_BGR2HSV cv (GaussianBlur cv frame (11, 11) 0))
                     redLower1 redUpper1)
                  (inRange (cvtColor_BGR2HSV cv (GaussianBlur cv frame (11, 11) 0))
                     redLower2 redUpper2))
               (ones (5, 5)) 2)
            (ones (5, 5)) 2) \<and>
      (\<not> list_ex (qualifies cv) (found_contours cv frame) \<longrightarrow> center = None \<and> radius = 0)"
    unfolding ball_mask_unfold [symmetric] detect_ball_checked_pixels [OF ne]
  proof (cases "fst (fold (keep cv) (found_contours cv frame) (None, 0))")
    case None
    then show "\<exists>center radius.
        detect_ball cv frame = Inr (center, radius, ball_mask cv frame) \<and>
        (\<not> list_ex (qualifies cv) (found_contours cv frame) \<longrightarrow> center = None \<and> radius = 0)"
      by (simp add: detect_ball_unfold)
  next
    case (Some c)
    then have "list_ex (qualifies cv) (found_contours cv frame)"
      using fold_keep_None [of cv "found_contours cv frame"] by simp
    with Some show "\<exists>center radius.
        detect_ball cv frame = Inr (center, radius, ball_mask cv frame) \<and>
        (\<not> list_ex (qualifies cv) (found_contours cv frame) \<longrightarrow> center = None \<and> radius = 0)"
      by (simp add: detect_ball_unfold)
  qed
qed

theorem detect_ball_checked_returns_mask_witness:
  "detect_ball_checked cv_stub speckle_frame = Inr (None, 0, [[0, 0, 0]]) \<and>
   detect_ball_checked cv_stub streak_frame =
     Inr (Some (300, 400), 11, [[255, 255, 255, 255, 255, 255, 0]]) \<and>
   detect_ball_checked cv_stub [[], []] = Inl Cv2Error"
proof -
  have s: "\<not> empty_image speckle_frame" "\<not> empty_image streak_frame" "empty_image [[], []]"
    by (simp_all add: empty_image_def speckle_frame_def streak_frame_def)
  from detect_ball_checked_returns_mask [of speckle_frame cv_stub] s(1)
  have "detect_ball_checked cv_stub speckle_frame = Inr (None, 0, [[0, 0, 0]])"
    by (auto simp: ball_mask_unfold [symmetric] speckle_frame_mask speckle_frame_contours)
  moreover from detect_ball_checked_returns_mask [of streak_frame cv_stub] s(2)
  have "detect_ball_checked cv_stub streak_frame =
      Inr (Some (300, 400), 11, [[255, 255, 255, 255, 255, 255, 0]])"
    by (auto simp: ball_mask_unfold [symmetric] streak_frame_mask
        detect_ball_checked_pixels streak_frame_detect)
  moreover from detect_ball_checked_returns_mask [of "[[], []]" cv_stub] s(3)
  have "detect_ball_checked cv_stub [[], []] = Inl Cv2Error" by simp
  ultimately show ?thesis by simp
qed

theorem detect_ball_raises_on_empty_frame: "detect_ball_checked cv_stub [] = Inl Cv2Error"
  by (simp add: detect_ball_checked_def cv2_GaussianBlur_def empty_image_def)

section \<open>The trajectory buffers\<close>

lemma appendleft_take:
  "length (items d) \<le> maxlen d \<Longrightarrow> items (appendleft x d) = take (maxlen d) (x # items d)"
proof (cases "maxlen d < Suc (length (items d))")
  case True
  assume "length (items d) \<le> maxlen d"
  with True have "maxlen d = length (items d)" by simp
  with True show ?thesis by (simp add: appendleft_def Let_def butlast_conv_take)
next
  case False
  then show ?thesis by (simp add: appendleft_def Let_def)
qed

lemma appendleft_maxlen: "maxlen (appendleft x d) = maxlen d"
  by (simp add: appendleft_def Let_def)

lemma appendleft_length:
  "length (items d) \<le> maxlen d \<Longrightarrow> length (items (appendleft x d)) = min (maxlen d) (Suc (length (items d)))"
  by (simp add: appendleft_take)

lemma fold_appendleft_maxlen: "maxlen (fold appendleft xs d) = maxlen d"
  by (induction xs arbitrary: d) (simp_all add: appendleft_maxlen)

lemma fold_appendleft_take:
  "length (items d) \<le> maxlen d \<Longrightarrow>
   items (fold appendleft xs d) = take (maxlen d) (rev xs @ items d)"
proof (induction xs arbitrary: d)
  case Nil
  then show ?case by simp
next
  case (Cons x xs)
  have len: "length (items (appendleft x d)) \<le> maxlen (appendleft x d)"
    using Cons.prems by (simp add: appendleft_length appendleft_maxlen)
  have "items (fold appendleft (x # xs) d) =
        take (maxlen d) (rev xs @ take (maxlen d) (x # items d))"
    using Cons.IH [OF len] Cons.prems by (simp add: appendleft_maxlen appendleft_take)
  also have "\<dots> = take (maxlen d) (rev xs @ x # items d)"
    by (simp add: take_append min_def) 
  finally show ?case by simp
qed

lemma init_state_ok: "init_state e a = Inr s \<Longrightarrow> buffers_ok (nat (buffer a)) s"
  by (auto simp: init_state_def deque_init_def buffers_ok_def split: if_splits)

lemma loop_body_ok:
  "buffers_ok cap s \<Longrightarrow> loop_body e mapper a s frame key = Inr (s', ctl) \<Longrightarrow> buffers_ok cap s'"
  by (auto simp: loop_body_def buffers_ok_def Let_def appendleft_maxlen appendleft_length
      split: sum.splits prod.splits option.splits)

lemma main_loop_ok:
  "buffers_ok cap s \<Longrightarrow> main_loop e mapper a s frames = Inr s' \<Longrightarrow> buffers_ok cap s'"
proof (induction frames arbitrary: s)
  case Nil
  then show ?case by simp
next
  case (Cons fk frames)
  obtain frame key where fk: "fk = (frame, key)" by (cases fk)
  from Cons.prems(2) obtain s1 ctl where
    body: "loop_body e mapper a s frame key = Inr (s1, ctl)"
    by (auto simp: fk split: sum.splits)
  from loop_body_ok [OF Cons.prems(1) body] have ok1: "buffers_ok cap s1" .
  show ?case
  proof (cases ctl)
    case Continue
    with Cons.prems(2) body have "main_loop e mapper a s1 frames = Inr s'"
      by (simp add: fk)
    from Cons.IH [OF ok1 this] show ?thesis .
  next
    case Break
    with Cons.prems(2) body have "s' = s1" by (simp add: fk)
    with ok1 show ?thesis by simp
  qed
qed

lemma main_ok: "main e a isOpened frames = Inr (Some s) \<Longrightarrow> buffers_ok (nat (buffer a)) s"
  by (auto simp: main_def Let_def split: if_splits sum.splits
      dest: init_state_ok main_loop_ok)

section \<open>The mapper\<close>

lemma py_int_of_int: "py_int (real_of_int k) = k"
  by (simp add: py_int_def)

text \<open>\<open>py_int\<close> rounds towards zero, by less than one.\<close>

lemma py_int_truncates:
  "\<bar>real_of_int (py_int x)\<bar> \<le> \<bar>x\<bar>" "\<bar>x - real_of_int (py_int x)\<bar> < 1"
  by (auto simp: py_int_def) linarith+

lemma transform_point_Some:
  "transform_point self (Some (x, y)) =
     Some (py_int (fst (homography (M self) (real_of_int x, real_of_int y))),
           py_int (snd (homography (M self) (real_of_int x, real_of_int y))))"
  by (simp add: transform_point_def perspectiveTransform_def Let_def)

lemma transform_point_None_iff: "transform_point self point = None \<longleftrightarrow> point = None"
  by (cases point) (auto simp: transform_point_def Let_def)

lemma detect_ball_total:
  "\<exists>center radius. detect_ball cv frame = Inr (center, radius, ball_mask cv frame)"
  by (simp add: detect_ball_unfold split: option.splits)

text \<open>
  In exact arithmetic the homography of the configured corners sends each source corner
  to its destination corner.
\<close>

lemma exact_matrix_corners:
  "map (homography exact_matrix) [(220, 100), (420, 100), (500, 590), (140, 590)] =
     [(0, 0), (399, 0), (399, 899), (0, 899)]"
  by (simp add: homography_def exact_matrix_def FLT_EPSILON_def)

section \<open>Rounding\<close>

lemma pow2_pos: "0 < pow2 k"
  by (simp add: pow2_def)

lemma pow2_nat: "pow2 (int n) = 2 ^ n"
  by (simp add: pow2_def)

lemma pow2_powr: "pow2 k = 2 powr real_of_int k"
  by (cases "0 \<le> k")
     (simp_all add: pow2_def powr_realpow [symmetric] powr_minus field_simps)

lemma pow2_add: "pow2 (j + k) = pow2 j * pow2 k"
  by (simp add: pow2_powr powr_add)

lemma pow2_mono: "j \<le> k \<Longrightarrow> pow2 j \<le> pow2 k"
  by (simp add: pow2_powr)

lemma pow2_less_iff: "pow2 j < pow2 k \<longleftrightarrow> j < k"
  by (simp add: pow2_powr)

lemma rne_of_int: "rne (real_of_int k) = k"
  by (simp add: rne_def)

lemma rne_near: "\<bar>m - real_of_int k\<bar> < 1 / 2 \<Longrightarrow> rne m = k"
proof -
  assume a: "\<bar>m - real_of_int k\<bar> < 1 / 2"
  show ?thesis
  proof (cases "real_of_int k \<le> m")
    case True
    with a have "\<lfloor>m\<rfloor> = k" by (intro floor_unique) linarith+
    with a True show ?thesis by (simp add: rne_def Let_def)
  next
    case False
    with a have f: "\<lfloor>m\<rfloor> = k - 1" by (intro floor_unique; simp; linarith)
    with a False have "1 / 2 < m - real_of_int \<lfloor>m\<rfloor>" by simp
    with f show ?thesis by (simp add: rne_def Let_def)
  qed
qed

lemma rne_bounds: "real_of_int (rne m) \<le> m + 1 / 2" "m - 1 / 2 \<le> real_of_int (rne m)"
  by (auto simp: rne_def Let_def) linarith+

lemma rne_abs_le: "\<bar>m\<bar> \<le> real_of_int N \<Longrightarrow> \<bar>rne m\<bar> \<le> N"
proof -
  assume a: "\<bar>m\<bar> \<le> real_of_int N"
  from rne_bounds [of m] a
  have "real_of_int (rne m) \<le> real_of_int N + 1 / 2" "- real_of_int N - 1 / 2 \<le> real_of_int (rne m)"
    by linarith+
  then have "rne m \<le> N" "- N \<le> rne m" by linarith+
  then show ?thesis by simp
qed

text \<open>The binade of a nonzero number.\<close>

lemma binade_bounds:
  assumes "a \<noteq> 0"
  shows "pow2 (binade a) \<le> \<bar>a\<bar>" and "\<bar>a\<bar> < pow2 (binade a + 1)"
proof -
  have "pow2 (binade a) \<le> \<bar>a\<bar> \<and> \<bar>a\<bar> < pow2 (binade a + 1)"
  proof (cases "1 \<le> \<bar>a\<bar>")
    case True
    define n where "n = \<lfloor>\<bar>a\<bar>\<rfloor>"
    from True have n: "0 < n" by (simp add: n_def)
    have b: "binade a = bitlen n - 1" using True by (simp add: binade_def n_def)
    from bitlen_bounds [OF n] have lo: "2 ^ nat (bitlen n - 1) \<le> n" and hi: "n < 2 ^ nat (bitlen n)"
      by simp_all
    from n have bl: "1 \<le> bitlen n" by (simp add: bitlen_alt_def)
    have n_le: "real_of_int n \<le> \<bar>a\<bar>" by (simp add: n_def)
    from lo have "(2 :: real) ^ nat (bitlen n - 1) \<le> real_of_int n"
      by (metis of_int_le_iff of_int_numeral of_int_power)
    with n_le have "(2 :: real) ^ nat (bitlen n - 1) \<le> \<bar>a\<bar>" by linarith
    moreover have "pow2 (bitlen n - 1) = 2 ^ nat (bitlen n - 1)" using bl by (simp add: pow2_def)
    ultimately have l: "pow2 (binade a) \<le> \<bar>a\<bar>" by (simp add: b)
    from hi have "n + 1 \<le> 2 ^ nat (bitlen n)" by simp
    then have "real_of_int (n + 1) \<le> 2 ^ nat (bitlen n)"
      by (metis of_int_le_iff of_int_numeral of_int_power)
    moreover have "\<bar>a\<bar> < real_of_int (n + 1)" unfolding n_def by linarith
    ultimately have "\<bar>a\<bar> < (2 :: real) ^ nat (bitlen n)" by linarith
    moreover have "pow2 (bitlen n - 1 + 1) = 2 ^ nat (bitlen n)" using bl by (simp add: pow2_def)
    ultimately have "\<bar>a\<bar> < pow2 (binade a + 1)" by (simp add: b)
    with l show ?thesis ..
  next
    case False
    define t where "t = 1 / \<bar>a\<bar>"
    define n where "n = \<lceil>t\<rceil> - 1"
    from False assms have t: "1 < t" by (simp add: t_def)
    then have n: "0 < n" unfolding n_def by linarith
    have b: "binade a = - bitlen n" using False by (simp add: binade_def n_def t_def)
    from n have bl: "1 \<le> bitlen n" by (simp add: bitlen_alt_def)
    from bitlen_bounds [OF n] have lo: "2 ^ nat (bitlen n - 1) \<le> n" and hi: "n < 2 ^ nat (bitlen n)"
      by simp_all
    from hi have "\<lceil>t\<rceil> \<le> 2 ^ nat (bitlen n)" by (simp add: n_def)
    then have "real_of_int \<lceil>t\<rceil> \<le> 2 ^ nat (bitlen n)"
      by (metis of_int_le_iff of_int_numeral of_int_power)
    then have tu: "t \<le> 2 ^ nat (bitlen n)" by linarith
    from lo have "(2 :: real) ^ nat (bitlen n - 1) \<le> real_of_int n"
      by (metis of_int_le_iff of_int_numeral of_int_power)
    moreover have "real_of_int n < t" unfolding n_def by linarith
    ultimately have tl: "2 ^ nat (bitlen n - 1) < t" by linarith
    have apos: "0 < \<bar>a\<bar>" using assms by simp
    have a_t: "\<bar>a\<bar> = 1 / t" using assms by (simp add: t_def)
    from tu t have l: "1 / 2 ^ nat (bitlen n) \<le> \<bar>a\<bar>"
      unfolding a_t by (intro divide_left_mono) simp_all
    from tl t have u: "\<bar>a\<bar> < 1 / 2 ^ nat (bitlen n - 1)"
      unfolding a_t by (intro divide_strict_left_mono) simp_all
    have "pow2 (- bitlen n) = 1 / 2 ^ nat (bitlen n)" using bl by (simp add: pow2_def)
    moreover have "pow2 (- bitlen n + 1) = 1 / 2 ^ nat (bitlen n - 1)"
      using bl by (cases "bitlen n = 1") (simp_all add: pow2_def)
    ultimately show ?thesis using l u by (simp add: b)
  qed
  then show "pow2 (binade a) \<le> \<bar>a\<bar>" and "\<bar>a\<bar> < pow2 (binade a + 1)" by simp_all
qed

lemma binade_eqI:
  assumes "pow2 e \<le> \<bar>a\<bar>" "\<bar>a\<bar> < pow2 (e + 1)"
  shows "binade a = e"
proof -
  from assms(1) pow2_pos [of e] have nz: "a \<noteq> 0" by auto
  from binade_bounds [OF nz] assms
  have "pow2 (binade a) < pow2 (e + 1)" "pow2 e < pow2 (binade a + 1)" by linarith+
  then have "binade a < e + 1" "e < binade a + 1" by (simp_all add: pow2_less_iff)
  then show ?thesis by simp
qed

lemma binade_of_int:
  assumes "k \<noteq> 0"
  shows "0 \<le> binade (real_of_int k)"
proof -
  from assms have "1 \<le> \<bar>k\<bar>" by simp
  then have "real_of_int 1 \<le> real_of_int \<bar>k\<bar>" by (simp only: of_int_le_iff)
  then have "1 \<le> \<bar>real_of_int k\<bar>" by simp
  then have "pow2 0 \<le> \<bar>real_of_int k\<bar>" by (simp add: pow2_def)
  moreover have "\<bar>real_of_int k\<bar> < pow2 (binade (real_of_int k) + 1)"
    using assms by (intro binade_bounds) simp
  ultimately have "pow2 0 < pow2 (binade (real_of_int k) + 1)" by linarith
  then show ?thesis by (simp add: pow2_less_iff)
qed

text \<open>An integer of at most \<open>p\<close> bits, and a power of two, is not changed by rounding.\<close>

lemma round_fp_int:
  assumes "\<bar>k\<bar> \<le> 2 ^ p" "emin \<le> 0" "0 < p"
  shows "round_fp p emin (real_of_int k) = real_of_int k"
proof (cases "k = 0")
  case True
  then show ?thesis by (simp add: round_fp_def)
next
  case False
  define e where "e = binade (real_of_int k)"
  from False have e0: "0 \<le> e" unfolding e_def by (rule binade_of_int)
  from False have nz: "real_of_int k \<noteq> 0" by simp
  from binade_bounds(1) [OF nz] have lo: "pow2 e \<le> \<bar>real_of_int k\<bar>" by (simp add: e_def)
  from assms(1) have "\<bar>real_of_int k\<bar> \<le> 2 ^ p"
    by (metis of_int_abs of_int_le_iff of_int_numeral of_int_power)
  then have up: "\<bar>real_of_int k\<bar> \<le> pow2 (int p)" by (simp add: pow2_nat)
  with lo have "pow2 e \<le> pow2 (int p)" by linarith
  then have ep: "e \<le> int p"
    using pow2_less_iff [of "int p" e] by (simp add: not_less [symmetric])
  from e0 assms(2) have m: "max e emin = e" by simp
  have rf: "round_fp p emin (real_of_int k) =
      real_of_int (rne (real_of_int k / pow2 (e - int p + 1))) * pow2 (e - int p + 1)"
    using nz by (simp add: round_fp_def e_def [symmetric] m Let_def)
  show ?thesis
  proof (cases "e = int p")
    case True
    with lo up have "\<bar>real_of_int k\<bar> = 2 ^ p" by (simp add: pow2_nat)
    then have "\<bar>k\<bar> = 2 ^ p"
      by (metis of_int_abs of_int_eq_iff of_int_numeral of_int_power)
    with assms(3) have "even \<bar>k\<bar>" by simp
    then have ev: "even k" by simp
    then obtain j where j: "k = 2 * j" by (elim evenE)
    have q: "pow2 (e - int p + 1) = 2" using True by (simp add: pow2_def)
    have "real_of_int k / 2 = real_of_int j" by (simp add: j)
    then have "rne (real_of_int k / 2) = j" by (simp only: rne_of_int)
    then show ?thesis unfolding rf q by (simp add: j)
  next
    case False
    with ep have lt: "e < int p" by simp
    define d where "d = nat (int p - 1 - e)"
    have q: "pow2 (e - int p + 1) = 1 / 2 ^ d"
    proof (cases "e - int p + 1 = 0")
      case True
      then show ?thesis by (simp add: pow2_def d_def)
    next
      case False
      with lt have "e - int p + 1 < 0" by simp
      moreover have "nat (- (e - int p + 1)) = d" by (simp add: d_def)
      ultimately show ?thesis by (simp add: pow2_def)
    qed
    have "real_of_int k / (1 / 2 ^ d) = real_of_int (k * 2 ^ d)" by simp
    then have "rne (real_of_int k / (1 / 2 ^ d)) = k * 2 ^ d" by (simp only: rne_of_int)
    then show ?thesis unfolding rf q by simp
  qed
qed

lemma round_fp_abs_le:
  assumes "a \<noteq> 0"
  shows "\<bar>round_fp p emin a\<bar> \<le> pow2 (max (binade a) emin + 1)"
proof -
  define e where "e = max (binade a) emin"
  define q where "q = pow2 (e - int p + 1)"
  have qpos: "0 < q" by (simp add: q_def pow2_pos)
  have "\<bar>a\<bar> < pow2 (binade a + 1)" using assms by (rule binade_bounds)
  also have "\<dots> \<le> pow2 (e + 1)" by (intro pow2_mono) (simp add: e_def)
  also have "pow2 (e + 1) = pow2 (int p) * q"
    unfolding q_def pow2_add [symmetric] by simp
  finally have "\<bar>a / q\<bar> < pow2 (int p)" using qpos by (simp add: field_simps)
  then have "\<bar>a / q\<bar> \<le> real_of_int (2 ^ p)" by (simp add: pow2_nat)
  then have "\<bar>rne (a / q)\<bar> \<le> 2 ^ p" by (rule rne_abs_le)
  then have "\<bar>real_of_int (rne (a / q))\<bar> \<le> 2 ^ p"
    by (metis of_int_abs of_int_le_iff of_int_numeral of_int_power)
  then have "\<bar>real_of_int (rne (a / q)) * q\<bar> \<le> pow2 (int p) * q"
    using qpos by (simp add: abs_mult pow2_nat)
  also have "pow2 (int p) * q = pow2 (e + 1)"
    unfolding q_def pow2_add [symmetric] by simp
  finally show ?thesis
    using assms by (simp add: round_fp_def e_def [symmetric] q_def [symmetric] Let_def)
qed

text \<open>
  Rounding to single precision: a value of less than a half stays below a half in absolute
  value; a value within \<open>2 ^ -16\<close> of an integer between 256 and 1023 becomes that
  integer.
\<close>

lemma round32_small: "\<bar>a\<bar> < 1 / 2 \<Longrightarrow> \<bar>round32 a\<bar> \<le> 1 / 2"
proof (cases "a = 0")
  case True
  then show ?thesis by (simp add: round32_def round_fp_def)
next
  case False
  assume a: "\<bar>a\<bar> < 1 / 2"
  have "pow2 (binade a) \<le> \<bar>a\<bar>" using False by (rule binade_bounds)
  with a have "pow2 (binade a) < pow2 (- 1)" by (simp add: pow2_def)
  then have "binade a < - 1" by (simp add: pow2_less_iff)
  then have "max (binade a) (- 126) + 1 \<le> - 1" by simp
  then have "pow2 (max (binade a) (- 126) + 1) \<le> pow2 (- 1)" by (rule pow2_mono)
  with round_fp_abs_le [OF False, of 24 "- 126"] show ?thesis
    by (simp add: round32_def pow2_def)
qed

lemma abs_scale:
  fixes a d c t :: real
  assumes "\<bar>a - d\<bar> < t" "0 < c"
  shows "\<bar>a * c - d * c\<bar> < t * c"
proof -
  have "a * c - d * c = (a - d) * c" by (simp add: algebra_simps)
  then have "\<bar>a * c - d * c\<bar> = \<bar>a - d\<bar> * c" using assms(2) by (simp add: abs_mult)
  with assms show ?thesis by simp
qed

lemma round32_snap:
  assumes "256 < d" "d < 1024" "\<bar>a - real_of_int d\<bar> < 1 / 2 ^ 16"
  shows "round32 a = real_of_int d"
proof -
  from assms(1,2) have d: "257 \<le> real_of_int d" "real_of_int d \<le> 1023" by simp_all
  from assms(3) have t: "\<bar>a - real_of_int d\<bar> < 1 / 65536" by simp
  from d t have a_lo: "256 < a" and a_hi: "a < 1024" by linarith+
  then have nz: "a \<noteq> 0" and abs_a: "\<bar>a\<bar> = a" by simp_all
  show ?thesis
  proof (cases "a < 512")
    case True
    with a_lo have "binade a = 8"
      by (intro binade_eqI) (simp_all add: pow2_def abs_a)
    then have r: "round32 a = real_of_int (rne (a * 2 ^ 15)) / 2 ^ 15"
      using nz by (simp add: round32_def round_fp_def pow2_def)
    from abs_scale [OF t, of "2 ^ 15"]
    have "\<bar>a * 2 ^ 15 - real_of_int (d * 2 ^ 15)\<bar> < 1 / 2" by simp
    then have "rne (a * 2 ^ 15) = d * 2 ^ 15" by (rule rne_near)
    then show ?thesis by (simp add: r)
  next
    case False
    with a_hi have "binade a = 9"
      by (intro binade_eqI) (simp_all add: pow2_def abs_a)
    then have r: "round32 a = real_of_int (rne (a * 2 ^ 14)) / 2 ^ 14"
      using nz by (simp add: round32_def round_fp_def pow2_def)
    from abs_scale [OF t, of "2 ^ 14"]
    have "\<bar>a * 2 ^ 14 - real_of_int (d * 2 ^ 14)\<bar> < 1 / 2" by simp
    then have "rne (a * 2 ^ 14) = d * 2 ^ 14" by (rule rne_near)
    then show ?thesis by (simp add: r)
  qed
qed

lemma round_fp_pow2:
  assumes "0 < p" "emin \<le> int n"
  shows "round_fp p emin (2 ^ n) = 2 ^ n"
proof -
  have b: "binade (2 ^ n) = int n"
    by (rule binade_eqI) (simp_all add: pow2_def nat_add_distrib)
  from assms(2) have m: "max (int n) emin = int n" by simp
  define q where "q = pow2 (int n - int p + 1)"
  have qpos: "0 < q" by (simp add: q_def pow2_pos)
  have "pow2 (int n) = pow2 (int p - 1) * q"
    unfolding q_def pow2_add [symmetric] by simp
  then have "2 ^ n / q = pow2 (int p - 1)" using qpos by (simp add: pow2_nat field_simps)
  also from assms(1) have "pow2 (int p - 1) = real_of_int (2 ^ (p - 1))"
    by (simp add: pow2_def nat_diff_distrib)
  finally have "rne (2 ^ n / q) = 2 ^ (p - 1)" by (simp only: rne_of_int)
  moreover have "real_of_int (2 ^ (p - 1)) * q = 2 ^ n"
  proof -
    from assms(1) have "real_of_int (2 ^ (p - 1)) = pow2 (int p - 1)"
      by (simp add: pow2_def nat_diff_distrib)
    then have "real_of_int (2 ^ (p - 1)) * q = pow2 (int p - 1 + (int n - int p + 1))"
      unfolding q_def pow2_add by simp
    then show ?thesis by (simp add: pow2_nat)
  qed
  ultimately show ?thesis
    by (simp add: round_fp_def b m q_def [symmetric] Let_def)
qed

lemma np_float32_overflow:
  "np_float32 (2 ^ 128) = Inr PInf" "np_float32 (2 ^ 1024) = Inl OverflowError"
proof -
  have "round64 (2 ^ 128) = 2 ^ 128" "round32 (2 ^ 128) = 2 ^ 128"
    "round64 (2 ^ 1024) = 2 ^ 1024"
    unfolding round64_def round32_def by (rule round_fp_pow2; simp)+
  then show "np_float32 (2 ^ 128) = Inr PInf" "np_float32 (2 ^ 1024) = Inl OverflowError"
    by (simp_all add: np_float32_def cast32_def Let_def)
qed


section \<open>The point transform in single precision\<close>

lemma cast32_Fin: "\<bar>round32 a\<bar> < 2 ^ 128 \<Longrightarrow> cast32 (Fin a) = Fin (round32 a)"
  by (simp add: cast32_def Let_def)

lemma cast32_zero: "cast32 (Fin 0) = Fin 0"
  by (simp add: cast32_def round32_def round_fp_def)

lemma round32_int: "\<bar>k\<bar> \<le> 2 ^ 24 \<Longrightarrow> round32 (real_of_int k) = real_of_int k"
  unfolding round32_def by (rule round_fp_int) simp_all

lemma round64_int: "\<bar>k\<bar> \<le> 2 ^ 53 \<Longrightarrow> round64 (real_of_int k) = real_of_int k"
  unfolding round64_def by (rule round_fp_int) simp_all

text \<open>Integers of at most 24 bits are stored in \<open>np.float32\<close> without change.\<close>

lemma np_float32_exact:
  assumes "\<bar>k\<bar> \<le> 2 ^ 24"
  shows "np_float32 k = Inr (Fin (real_of_int k))"
proof -
  from assms have "\<bar>k\<bar> \<le> 2 ^ 53" by simp
  then have d: "round64 (real_of_int k) = real_of_int k" by (rule round64_int)
  from assms have "\<bar>real_of_int k\<bar> \<le> real_of_int (2 ^ 24)"
    by (metis of_int_abs of_int_le_iff)
  then have b: "\<bar>real_of_int k\<bar> \<le> 2 ^ 24" by simp
  then have "\<bar>real_of_int k\<bar> < 2 ^ 1024" by (rule order_le_less_trans) simp
  moreover from b have "\<bar>real_of_int k\<bar> < 2 ^ 128" by (rule order_le_less_trans) simp
  ultimately show ?thesis
    by (simp add: np_float32_def d cast32_def round32_int [OF assms] Let_def)
qed

text \<open>
  On finite single precision points the library's transform is the homography over the
  reals, each coordinate cast to single precision.
\<close>

lemma homography_f32_Fin:
  "homography_f32 m (Fin x, Fin y) =
     (cast32 (Fin (fst (homography m (x, y)))), cast32 (Fin (snd (homography m (x, y)))))"
proof -
  obtain m0 m1 m2 m3 m4 m5 m6 m7 m8 where
    m: "m = ((m0, m1, m2), (m3, m4, m5), (m6, m7, m8))"
    by (metis prod_cases3)
  show ?thesis
  proof (cases "FLT_EPSILON < \<bar>m6 * x + m7 * y + m8\<bar>")
    case True
    have "0 < FLT_EPSILON" by (simp add: FLT_EPSILON_def)
    with True have "m6 * x + m7 * y + m8 \<noteq> 0" by auto
    with True show ?thesis
      by (simp add: m homography_f32_def homography_def Let_def algebra_simps)
  next
    case False
    then show ?thesis
      by (simp add: m homography_f32_def homography_def Let_def cast32_zero algebra_simps)
  qed
qed

lemma transform_point_f32_None: "transform_point_f32 self None = Inr None"
  by (simp add: transform_point_f32_def)

lemma transform_point_f32_Some:
  assumes "np_float32 p0 = Inr x" "np_float32 p1 = Inr y"
    and "homography_f32 (M self) (x, y) = (u, v)"
  shows "transform_point_f32 self (Some (p0, p1)) =
     (case int_of_float u of
        Inl err \<Rightarrow> Inl err
      | Inr a \<Rightarrow> (case int_of_float v of Inl err \<Rightarrow> Inl err | Inr b \<Rightarrow> Inr (Some (a, b))))"
  using assms
  by (simp add: transform_point_f32_def perspectiveTransform_f32_def Let_def
      cong: sum.case_cong)

lemma transform_point_f32_None_iff:
  "transform_point_f32 self point = Inr None \<longleftrightarrow> point = None"
  by (cases point)
    (auto simp: transform_point_f32_def Let_def split: sum.splits prod.splits)

lemma int_of_float_cases:
  "(\<exists>a. u = Fin a \<and> int_of_float u = Inr (py_int a)) \<or>
   (u = NaN \<and> int_of_float u = Inl ValueError) \<or>
   ((u = PInf \<or> u = MInf) \<and> int_of_float u = Inl OverflowError)"
  by (cases u) simp_all

lemma transform_point_f32_in_range:
  assumes "\<bar>p0\<bar> \<le> 2 ^ 24" "\<bar>p1\<bar> \<le> 2 ^ 24"
    and "homography (M self) (real_of_int p0, real_of_int p1) = (hx, hy)"
    and "\<bar>round32 hx\<bar> < 2 ^ 128" "\<bar>round32 hy\<bar> < 2 ^ 128"
  shows "transform_point_f32 self (Some (p0, p1)) =
     Inr (Some (py_int (round32 hx), py_int (round32 hy)))"
proof -
  have "homography_f32 (M self) (Fin (real_of_int p0), Fin (real_of_int p1)) =
      (Fin (round32 hx), Fin (round32 hy))"
    using assms(4,5) by (simp add: homography_f32_Fin assms(3) cast32_def Let_def)
  from transform_point_f32_Some
    [OF np_float32_exact [OF assms(1)] np_float32_exact [OF assms(2)] this]
  show ?thesis by simp
qed

lemma py_int_near:
  assumes "\<bar>x - real_of_int d\<bar> < 1"
  shows "\<bar>py_int x - d\<bar> \<le> 1"
proof -
  from assms have "real_of_int d - 1 < x" "x < real_of_int d + 1" by linarith+
  then have "d - 1 \<le> \<lfloor>x\<rfloor>" "\<lfloor>x\<rfloor> \<le> d" "d \<le> \<lceil>x\<rceil>" "\<lceil>x\<rceil> \<le> d + 1"
    by linarith+
  then show ?thesis by (simp add: py_int_def)
qed

lemma py_int_small: "\<bar>x\<bar> < 1 \<Longrightarrow> py_int x = 0"
  by (simp add: py_int_def) linarith

lemma init_corners:
  "pts_src (PerspectiveMapper_init gpt w) = map real_point src_corners"
  "pts_dst (PerspectiveMapper_init gpt w) = map real_point dst_corners"
  by (simp_all add: PerspectiveMapper_init_def Let_def src_corners_def dst_corners_def
      real_point_def)

lemma transform_point_near:
  assumes "near (homography (M self) (real_point p)) q"
  shows "\<exists>r. transform_point self (Some p) = Some r \<and> within1 r q"
proof -
  obtain x y where p: "p = (x, y)" by (cases p)
  obtain hx hy where h: "homography (M self) (real_of_int x, real_of_int y) = (hx, hy)"
    by (cases "homography (M self) (real_of_int x, real_of_int y)")
  from assms have "\<bar>hx - real_of_int (fst q)\<bar> < 1" "\<bar>hy - real_of_int (snd q)\<bar> < 1"
    by (simp_all add: near_def p h real_point_def)
  then have "within1 (py_int hx, py_int hy) q"
    by (simp add: within1_def py_int_near)
  then show ?thesis by (simp add: p transform_point_Some h)
qed

lemma transform_point_near_origin:
  assumes "near (homography (M self) (real_point p)) (0, 0)"
  shows "transform_point self (Some p) = Some (0, 0)"
proof -
  obtain x y where p: "p = (x, y)" by (cases p)
  obtain hx hy where h: "homography (M self) (real_of_int x, real_of_int y) = (hx, hy)"
    by (cases "homography (M self) (real_of_int x, real_of_int y)")
  from assms have "\<bar>hx\<bar> < 1" "\<bar>hy\<bar> < 1"
    by (simp_all add: near_def p h real_point_def)
  then show ?thesis by (simp add: p transform_point_Some h py_int_small)
qed

lemma transform_point_exact:
  assumes "homography (M self) (real_point p) = real_point q"
  shows "transform_point self (Some p) = Some q"
proof -
  obtain x y where p: "p = (x, y)" by (cases p)
  from assms show ?thesis
    by (cases q) (simp add: p transform_point_Some real_point_def py_int_of_int)
qed

text \<open>
  A coordinate within \<open>2 ^ -16\<close> of 0, 399 or 899 becomes that integer after the cast to
  single precision and the truncation.
\<close>

lemma snap_coord:
  assumes "d = 0 \<or> d = 399 \<or> d = 899" "\<bar>h - real_of_int d\<bar> < 1 / 2 ^ 16"
  shows "\<bar>round32 h\<bar> < 2 ^ 128 \<and> py_int (round32 h) = d"
proof (cases "d = 0")
  case True
  with assms(2) have "\<bar>h\<bar> < 1 / 2" by simp
  then have "\<bar>round32 h\<bar> \<le> 1 / 2" by (rule round32_small)
  then have "\<bar>round32 h\<bar> < 1" "\<bar>round32 h\<bar> < 2 ^ 128" by simp_all
  with True show ?thesis by (simp add: py_int_small)
next
  case False
  with assms(1) have "256 < d" "d < 1024" by auto
  from round32_snap [OF this assms(2)] assms(1) show ?thesis
    by (auto simp: py_int_of_int)
qed

lemma transform_point_f32_tight:
  assumes "tight (homography (M self) (real_point p)) q"
    and "\<bar>fst p\<bar> \<le> 2 ^ 24" "\<bar>snd p\<bar> \<le> 2 ^ 24"
    and "fst q = 0 \<or> fst q = 399 \<or> fst q = 899" "snd q = 0 \<or> snd q = 399 \<or> snd q = 899"
  shows "transform_point_f32 self (Some p) = Inr (Some q)"
proof -
  obtain x y where p: "p = (x, y)" by (cases p)
  obtain hx hy where h: "homography (M self) (real_of_int x, real_of_int y) = (hx, hy)"
    by (cases "homography (M self) (real_of_int x, real_of_int y)")
  from assms(1) have t: "\<bar>hx - real_of_int (fst q)\<bar> < 1 / 2 ^ 16"
    "\<bar>hy - real_of_int (snd q)\<bar> < 1 / 2 ^ 16"
    by (simp_all add: tight_def p h real_point_def)
  from snap_coord [OF assms(4) t(1)] snap_coord [OF assms(5) t(2)]
  have s: "\<bar>round32 hx\<bar> < 2 ^ 128" "py_int (round32 hx) = fst q"
    "\<bar>round32 hy\<bar> < 2 ^ 128" "py_int (round32 hy) = snd q"
    by simp_all
  from assms(2,3) have r: "\<bar>x\<bar> \<le> 2 ^ 24" "\<bar>y\<bar> \<le> 2 ^ 24" by (simp_all add: p)
  from transform_point_f32_in_range [OF r h s(1) s(3)] show ?thesis
    by (simp add: p s)
qed

lemma less_4: "i < (4 :: nat) \<longleftrightarrow> i = 0 \<or> i = 1 \<or> i = 2 \<or> i = 3"
  by auto

section \<open>The test double at work\<close>

lemma green_frame_detect: "detect_ball cv_stub green_frame = Inr (None, 0, [[0, 0], [0, 0]])"
  by (simp add: detect_ball_unfold green_frame_contours green_frame_mask)

lemma stub_pre_resize:
  "pre_resize env_stub red_frame = Inr red_frame"
  "pre_resize env_stub green_frame = Inr green_frame"
  by (simp_all add: pre_resize_def env_stub_def red_frame_def green_frame_def
      float_truediv_def FRAME_WIDTH_def)

lemma stub_transform: "transform_point stub_mapper (Some (300, 400)) = Some (172, 665)"
proof -
  have m: "M stub_mapper = exact_matrix"
    by (simp add: stub_mapper_def PerspectiveMapper_init_def env_stub_def Let_def)
  have h: "homography exact_matrix (300, 400) = (63042 / 365, 48546 / 73)"
    by (simp add: homography_def exact_matrix_def FLT_EPSILON_def)
  show ?thesis by (simp add: transform_point_Some m h py_int_def)
qed

lemma stub_env:
  "lib env_stub = cv_stub" "VidStab env_stub = 0"
  "stabilize_frame env_stub n frame w = (if n < 2 then None else Some frame, Suc n)"
  by (simp_all add: env_stub_def)

lemma stub_init: "init_state env_stub stub_args = Inr (stub_state 0)"
  by (simp add: init_state_def deque_init_def stub_args_def parse_args_def stub_env
      stub_state_def)

lemma stub_main:
  "\<exists>t. main env_stub stub_args True stub_video =
     Inr (Some \<lparr>pts_original = \<lparr>items = [Some (300, 400), None], maxlen = 2\<rparr>,
                pts_warped = \<lparr>items = [Some (172, 665), None], maxlen = 2\<rparr>,
                stabilizer = 5, trace = t\<rparr>)"
  by (simp add: main_def stub_init stub_state_def stub_video_def stub_mapper_def [symmetric]
      loop_body_def stub_pre_resize stub_env red_frame_detect green_frame_detect
      stub_transform appendleft_def Let_def)

lemma stub_M: "M stub_mapper = exact_matrix"
  by (simp add: stub_mapper_def PerspectiveMapper_init_def env_stub_def Let_def)

section \<open>Properties of the mapper and of the driver\<close>

text \<open>
  C1. The mapper stores the four configured source corners and the four corners of the
  destination rectangle. If the matrix of the solver maps every source corner to its
  destination corner, \<open>transform_point\<close> over the reals returns the destination corners.
  If it maps a source corner to within 1 of its destination corner in each coordinate, the
  returned point is within 1 of that corner, and it is \<open>(0, 0)\<close> for the corner
  \<open>(220, 100)\<close>. In the arithmetic of the source, if the matrix maps every source corner
  to within \<open>2 ^ -16\<close> of its destination corner, the cast to single precision absorbs
  the error and \<open>transform_point\<close> returns exactly the destination corners.
\<close>

theorem transform_point_corners:
  assumes "self = PerspectiveMapper_init gpt frame_width"
  shows "pts_src self = map real_point src_corners \<and>
     pts_dst self = map real_point dst_corners \<and>
     (map (homography (M self)) (pts_src self) = pts_dst self \<longrightarrow>
        map (transform_point self) (map Some src_corners) = map Some dst_corners) \<and>
     (\<forall>i<4. near (homography (M self) (pts_src self ! i)) (dst_corners ! i) \<longrightarrow>
        (\<exists>q. transform_point self (Some (src_corners ! i)) = Some q \<and>
             within1 q (dst_corners ! i))) \<and>
     (near (homography (M self) (220, 100)) (0, 0) \<longrightarrow>
        transform_point self (Some (220, 100)) = Some (0, 0)) \<and>
     (list_all2 tight (map (homography (M self)) (pts_src self)) dst_corners \<longrightarrow>
        map (transform_point_f32 self) (map Some src_corners) =
          map (\<lambda>q. Inr (Some q)) dst_corners)"
proof -
  note c = init_corners [of gpt frame_width, folded assms]
  have exact: "map (transform_point self) (map Some src_corners) = map Some dst_corners"
    if "map (homography (M self)) (pts_src self) = pts_dst self"
  proof -
    from that have h:
      "homography (M self) (real_point (220, 100)) = real_point (0, 0)"
      "homography (M self) (real_point (420, 100)) = real_point (399, 0)"
      "homography (M self) (real_point (500, 590)) = real_point (399, 899)"
      "homography (M self) (real_point (140, 590)) = real_point (0, 899)"
      unfolding c src_corners_def dst_corners_def by simp_all
    show ?thesis
      unfolding src_corners_def dst_corners_def
      by (simp add: h [THEN transform_point_exact])
  qed
  have tol: "\<exists>q. transform_point self (Some (src_corners ! i)) = Some q \<and>
      within1 q (dst_corners ! i)"
    if "i < 4" "near (homography (M self) (pts_src self ! i)) (dst_corners ! i)" for i
  proof -
    have "length src_corners = 4" by (simp add: src_corners_def)
    with that(1) have "pts_src self ! i = real_point (src_corners ! i)"
      unfolding c by (intro nth_map) simp
    with that(2) show ?thesis by (intro transform_point_near) simp
  qed
  have origin: "transform_point self (Some (220, 100)) = Some (0, 0)"
    if "near (homography (M self) (220, 100)) (0, 0)"
    using that transform_point_near_origin [of self "(220, 100)"] by (simp add: real_point_def)
  have f32: "map (transform_point_f32 self) (map Some src_corners) =
      map (\<lambda>q. Inr (Some q)) dst_corners"
    if "list_all2 tight (map (homography (M self)) (pts_src self)) dst_corners"
  proof -
    from that have t:
      "tight (homography (M self) (real_point (220, 100))) (0, 0)"
      "tight (homography (M self) (real_point (420, 100))) (399, 0)"
      "tight (homography (M self) (real_point (500, 590))) (399, 899)"
      "tight (homography (M self) (real_point (140, 590))) (0, 899)"
      unfolding c src_corners_def dst_corners_def by simp_all
    have "transform_point_f32 self (Some (220, 100)) = Inr (Some (0, 0))"
      by (rule transform_point_f32_tight [OF t(1)]) simp_all
    moreover have "transform_point_f32 self (Some (420, 100)) = Inr (Some (399, 0))"
      by (rule transform_point_f32_tight [OF t(2)]) simp_all
    moreover have "transform_point_f32 self (Some (500, 590)) = Inr (Some (399, 899))"
      by (rule transform_point_f32_tight [OF t(3)]) simp_all
    moreover have "transform_point_f32 self (Some (140, 590)) = Inr (Some (0, 899))"
      by (rule transform_point_f32_tight [OF t(4)]) simp_all
    ultimately show ?thesis
      unfolding src_corners_def dst_corners_def by simp
  qed
  from c exact tol origin f32 show ?thesis by blast
qed

theorem transform_point_corners_witness:
  "map (transform_point stub_mapper) (map Some src_corners) = map Some dst_corners \<and>
   map (transform_point_f32 stub_mapper) (map Some src_corners) =
     map (\<lambda>q. Inr (Some q)) dst_corners \<and>
   transform_point stub_mapper (Some (220, 100)) = Some (0, 0)"
proof -
  note c = init_corners [of "getPerspectiveTransform env_stub" FRAME_WIDTH,
      folded stub_mapper_def]
  have e: "map (homography (M stub_mapper)) (pts_src stub_mapper) = pts_dst stub_mapper"
    unfolding c stub_M src_corners_def dst_corners_def
    using exact_matrix_corners by (simp add: real_point_def)
  then have t: "list_all2 tight (map (homography (M stub_mapper)) (pts_src stub_mapper))
      dst_corners"
    unfolding c dst_corners_def by (simp add: tight_def real_point_def)
  have n: "near (homography (M stub_mapper) (220, 100)) (0, 0)"
    using exact_matrix_corners by (simp add: stub_M near_def)
  from transform_point_corners [OF stub_mapper_def] e t n show ?thesis by blast
qed

text \<open>
  C6. \<open>transform_point\<close> returns an absent value exactly when its argument is absent.
  For a point whose coordinates fit single precision it returns the image of the point
  under the forward homography of the stored matrix, rounded to single precision and
  truncated, with no clamping, provided that image is finite. In general the result
  follows the two coordinates the library returns: both finite, the truncated point; a
  NaN, \<open>ValueError\<close>; an infinity, \<open>OverflowError\<close>; and a coordinate of the argument
  beyond the range of doubles raises \<open>OverflowError\<close> before the transform.
\<close>

theorem transform_point_f32_absent_iff:
  "(transform_point_f32 self point = Inr None \<longleftrightarrow> point = None) \<and>
   (\<forall>p0 p1 hx hy.
      \<bar>p0\<bar> \<le> 2 ^ 24 \<and> \<bar>p1\<bar> \<le> 2 ^ 24 \<and>
      homography (M self) (real_of_int p0, real_of_int p1) = (hx, hy) \<and>
      \<bar>round32 hx\<bar> < 2 ^ 128 \<and> \<bar>round32 hy\<bar> < 2 ^ 128 \<longrightarrow>
      transform_point_f32 self (Some (p0, p1)) =
        Inr (Some (py_int (round32 hx), py_int (round32 hy)))) \<and>
   (\<forall>p0 p1 x y u v.
      np_float32 p0 = Inr x \<and> np_float32 p1 = Inr y \<and>
      homography_f32 (M self) (x, y) = (u, v) \<longrightarrow>
      (\<forall>a b. u = Fin a \<and> v = Fin b \<longrightarrow>
         transform_point_f32 self (Some (p0, p1)) = Inr (Some (py_int a, py_int b))) \<and>
      (u = NaN \<or> (\<exists>a. u = Fin a) \<and> v = NaN \<longrightarrow>
         transform_point_f32 self (Some (p0, p1)) = Inl ValueError) \<and>
      (u = PInf \<or> u = MInf \<or> (\<exists>a. u = Fin a) \<and> (v = PInf \<or> v = MInf) \<longrightarrow>
         transform_point_f32 self (Some (p0, p1)) = Inl OverflowError)) \<and>
   (\<forall>p0 p1 err.
      np_float32 p0 = Inl err \<or> (\<exists>x. np_float32 p0 = Inr x) \<and> np_float32 p1 = Inl err \<longrightarrow>
      transform_point_f32 self (Some (p0, p1)) = Inl err)"
proof -
  have fin: "transform_point_f32 self (Some (p0, p1)) =
      Inr (Some (py_int (round32 hx), py_int (round32 hy)))"
    if "\<bar>p0\<bar> \<le> 2 ^ 24" "\<bar>p1\<bar> \<le> 2 ^ 24"
      "homography (M self) (real_of_int p0, real_of_int p1) = (hx, hy)"
      "\<bar>round32 hx\<bar> < 2 ^ 128" "\<bar>round32 hy\<bar> < 2 ^ 128" for p0 p1 hx hy
    using that by (rule transform_point_f32_in_range)
  have out: "(\<forall>a b. u = Fin a \<and> v = Fin b \<longrightarrow>
         transform_point_f32 self (Some (p0, p1)) = Inr (Some (py_int a, py_int b))) \<and>
      (u = NaN \<or> (\<exists>a. u = Fin a) \<and> v = NaN \<longrightarrow>
         transform_point_f32 self (Some (p0, p1)) = Inl ValueError) \<and>
      (u = PInf \<or> u = MInf \<or> (\<exists>a. u = Fin a) \<and> (v = PInf \<or> v = MInf) \<longrightarrow>
         transform_point_f32 self (Some (p0, p1)) = Inl OverflowError)"
    if "np_float32 p0 = Inr x" "np_float32 p1 = Inr y"
      "homography_f32 (M self) (x, y) = (u, v)" for p0 p1 x y u v
    unfolding transform_point_f32_Some [OF that]
    by (cases u; cases v) simp_all
  have conv: "transform_point_f32 self (Some (p0, p1)) = Inl err"
    if "np_float32 p0 = Inl err \<or> (\<exists>x. np_float32 p0 = Inr x) \<and> np_float32 p1 = Inl err"
    for p0 p1 err
    using that by (auto simp: transform_point_f32_def)
  have c2: "\<forall>p0 p1 hx hy.
      \<bar>p0\<bar> \<le> 2 ^ 24 \<and> \<bar>p1\<bar> \<le> 2 ^ 24 \<and>
      homography (M self) (real_of_int p0, real_of_int p1) = (hx, hy) \<and>
      \<bar>round32 hx\<bar> < 2 ^ 128 \<and> \<bar>round32 hy\<bar> < 2 ^ 128 \<longrightarrow>
      transform_point_f32 self (Some (p0, p1)) =
        Inr (Some (py_int (round32 hx), py_int (round32 hy)))"
    using fin by blast
  have c3: "\<forall>p0 p1 x y u v.
      np_float32 p0 = Inr x \<and> np_float32 p1 = Inr y \<and>
      homography_f32 (M self) (x, y) = (u, v) \<longrightarrow>
      (\<forall>a b. u = Fin a \<and> v = Fin b \<longrightarrow>
         transform_point_f32 self (Some (p0, p1)) = Inr (Some (py_int a, py_int b))) \<and>
      (u = NaN \<or> (\<exists>a. u = Fin a) \<and> v = NaN \<longrightarrow>
         transform_point_f32 self (Some (p0, p1)) = Inl ValueError) \<and>
      (u = PInf \<or> u = MInf \<or> (\<exists>a. u = Fin a) \<and> (v = PInf \<or> v = MInf) \<longrightarrow>
         transform_point_f32 self (Some (p0, p1)) = Inl OverflowError)"
  proof (intro allI impI)
    fix p0 p1 x y u v
    assume "np_float32 p0 = Inr x \<and> np_float32 p1 = Inr y \<and>
      homography_f32 (M self) (x, y) = (u, v)"
    then have "np_float32 p0 = Inr x" "np_float32 p1 = Inr y"
      "homography_f32 (M self) (x, y) = (u, v)" by simp_all
    then show "(\<forall>a b. u = Fin a \<and> v = Fin b \<longrightarrow>
         transform_point_f32 self (Some (p0, p1)) = Inr (Some (py_int a, py_int b))) \<and>
      (u = NaN \<or> (\<exists>a. u = Fin a) \<and> v = NaN \<longrightarrow>
         transform_point_f32 self (Some (p0, p1)) = Inl ValueError) \<and>
      (u = PInf \<or> u = MInf \<or> (\<exists>a. u = Fin a) \<and> (v = PInf \<or> v = MInf) \<longrightarrow>
         transform_point_f32 self (Some (p0, p1)) = Inl OverflowError)"
      by (rule out)
  qed
  have c4: "\<forall>p0 p1 err.
      np_float32 p0 = Inl err \<or> (\<exists>x. np_float32 p0 = Inr x) \<and> np_float32 p1 = Inl err \<longrightarrow>
      transform_point_f32 self (Some (p0, p1)) = Inl err"
    using conv by blast
  from transform_point_f32_None_iff [of self point] c2 c3 c4 show ?thesis
    by (intro conjI)
qed

theorem transform_point_f32_absent_iff_witness:
  "transform_point_f32 stub_mapper None = Inr None \<and>
   transform_point_f32 stub_mapper (Some (300, 400)) = Inr (Some (172, 665)) \<and>
   transform_point_f32 stub_mapper (Some (1213, 763)) = Inr (Some (1055, 1051)) \<and>
   transform_point_f32 stub_mapper (Some (0, 0)) = Inr (Some (- 563, - 394)) \<and>
   transform_point_f32 stub_mapper (Some (2 ^ 1024, 0)) = Inl OverflowError"
proof -
  note inst = transform_point_f32_absent_iff [of stub_mapper None]
  note in_range = inst [THEN conjunct2, THEN conjunct1, rule_format]
  note raises = inst [THEN conjunct2, THEN conjunct2, THEN conjunct2, rule_format]
  have h: "homography (M stub_mapper) (300, 400) = (63042 / 365, 48546 / 73)"
    "homography (M stub_mapper) (1213, 763) = (21530439 / 20408, 5364333 / 5102)"
    "homography (M stub_mapper) (0, 0) = (- 231021 / 410, - 16182 / 41)"
    by (simp_all add: stub_M homography_def exact_matrix_def FLT_EPSILON_def)
  have r: "round32 (63042 / 365) = 5659617 / 32768" "round32 (48546 / 73) = 340487 / 512"
    "round32 (21530439 / 20408) = 1055" "round32 (5364333 / 5102) = 4306607 / 4096"
    "round32 (- (231021 / 410)) = - (9231825 / 16384)"
    "round32 (- (16182 / 41)) = - (6466485 / 16384)"
    by code_simp+
  note o = np_float32_overflow(2)
  from inst have "transform_point_f32 stub_mapper None = Inr None" by simp
  moreover have "transform_point_f32 stub_mapper (Some (300, 400)) =
      Inr (Some (py_int (round32 (63042 / 365)), py_int (round32 (48546 / 73))))"
    by (rule in_range) (simp add: h r)
  moreover have "transform_point_f32 stub_mapper (Some (1213, 763)) =
      Inr (Some (py_int (round32 (21530439 / 20408)), py_int (round32 (5364333 / 5102))))"
    by (rule in_range) (simp add: h r)
  moreover have "transform_point_f32 stub_mapper (Some (0, 0)) =
      Inr (Some (py_int (round32 (- (231021 / 410))), py_int (round32 (- (16182 / 41)))))"
    by (rule in_range) (simp add: h r)
  moreover have "transform_point_f32 stub_mapper (Some (2 ^ 1024, 0)) = Inl OverflowError"
    by (rule raises, rule disjI1, rule o)
  ultimately show ?thesis by (simp add: r py_int_def)
qed

text \<open>
  A coordinate of \<open>2 ^ 128\<close> is stored as an infinity. The library then returns NaN,
  and \<open>int\<close> raises, whenever the entry of the bottom row of the matrix that multiplies
  this coordinate is not zero; where it is exactly zero, as the first entry of the bottom
  row of \<open>exact_matrix\<close> is, the library's test on \<open>w\<close> fails and it returns \<open>(0, 0)\<close>.
\<close>

lemma fl_mul_PInf:
  "fl_mul PInf (Fin a) = (if a = 0 then NaN else if 0 < a then PInf else MInf)"
  by (simp add: Let_def sgn_if)

lemma fl_special:
  assumes "u = NaN \<or> u = PInf \<or> u = MInf"
  shows "fl_add u (Fin c) = u" "fl_add (Fin c) u = u" "fl_mul u (Fin 0) = NaN"
  using assms by auto

lemma fl_inf:
  assumes "u = PInf \<or> u = MInf"
  shows "fl_abs_gt u eps" "fl_recip u = Fin 0"
  using assms by auto

lemma homography_f32_unbounded:
  assumes "m = ((m0, m1, m2), (m3, m4, m5), (m6, m7, m8))"
  shows "m6 \<noteq> 0 \<Longrightarrow> homography_f32 m (PInf, Fin 0) = (NaN, NaN)"
    and "m7 \<noteq> 0 \<Longrightarrow> homography_f32 m (Fin 0, PInf) = (NaN, NaN)"
proof -
  have s: "fl_mul PInf (Fin a) = NaN \<or> fl_mul PInf (Fin a) = PInf \<or> fl_mul PInf (Fin a) = MInf"
    for a by (simp add: Let_def)
  have z: "fl_mul (Fin 0) (Fin a) = Fin 0" for a by simp
  have i: "fl_mul PInf (Fin a) = PInf \<or> fl_mul PInf (Fin a) = MInf" if "a \<noteq> 0" for a
    using that by (simp add: Let_def sgn_if)
  note sp = fl_special [OF s]
  {
    assume "m6 \<noteq> 0"
    note in6 = fl_inf [OF i [OF this]]
    show "homography_f32 m (PInf, Fin 0) = (NaN, NaN)"
      unfolding assms homography_f32_def Let_def prod.case z sp
      by (simp only: in6 if_True sp cast32_def fl.case)
  }
  {
    assume "m7 \<noteq> 0"
    note in7 = fl_inf [OF i [OF this]]
    show "homography_f32 m (Fin 0, PInf) = (NaN, NaN)"
      unfolding assms homography_f32_def Let_def prod.case z sp
      by (simp only: in7 if_True sp cast32_def fl.case)
  }
qed

lemma transform_point_f32_unbounded:
  assumes "M self = ((m0, m1, m2), (m3, m4, m5), (m6, m7, m8))"
  shows "m6 \<noteq> 0 \<Longrightarrow> transform_point_f32 self (Some (2 ^ 128, 0)) = Inl ValueError"
    and "m7 \<noteq> 0 \<Longrightarrow> transform_point_f32 self (Some (0, 2 ^ 128)) = Inl ValueError"
proof -
  have z: "np_float32 0 = Inr (Fin 0)" using np_float32_exact [of 0] by simp
  {
    assume "m6 \<noteq> 0"
    from homography_f32_unbounded(1) [OF assms this]
    have "homography_f32 (M self) (PInf, Fin 0) = (NaN, NaN)" .
    from transform_point_f32_Some [OF np_float32_overflow(1) z this]
    show "transform_point_f32 self (Some (2 ^ 128, 0)) = Inl ValueError" by simp
  }
  {
    assume "m7 \<noteq> 0"
    from homography_f32_unbounded(2) [OF assms this]
    have "homography_f32 (M self) (Fin 0, PInf) = (NaN, NaN)" .
    from transform_point_f32_Some [OF z np_float32_overflow(1) this]
    show "transform_point_f32 self (Some (0, 2 ^ 128)) = Inl ValueError" by simp
  }
qed

theorem transform_point_raises_on_unbounded_point:
  "transform_point_f32 stub_mapper (Some (0, 2 ^ 128)) = Inl ValueError"
proof -
  have "M stub_mapper = ((19551 / 8200, 399 / 1025, - 231021 / 410),
      (0, 8091 / 2050, - 16182 / 41), (0, 2 / 1025, 1))"
    by (simp add: stub_M exact_matrix_def)
  then show ?thesis by (rule transform_point_f32_unbounded(2)) simp
qed

text \<open>
  C5. A trajectory buffer never holds more entries than its capacity: after any sequence
  of pushes into a new buffer of capacity \<open>n\<close>, the buffer holds the most recent \<open>n\<close>
  entries, most recent first. Both buffers of the driver stay within the configured
  capacity, whose default is 64.
\<close>

theorem trajectory_buffer_bounded:
  "(deque_init n = Inr d \<longrightarrow>
      items (fold appendleft xs d) = take (nat n) (rev xs) \<and>
      length (items (fold appendleft xs d)) \<le> nat n) \<and>
   (main e a isOpened frames = Inr (Some s) \<longrightarrow>
      length (items (pts_original s)) \<le> nat (buffer a) \<and>
      length (items (pts_warped s)) \<le> nat (buffer a)) \<and>
   buffer (parse_args v None) = 64"
proof -
  have "items (fold appendleft xs d) = take (nat n) (rev xs)" if "deque_init n = Inr d"
  proof -
    from that have d: "items d = []" "maxlen d = nat n"
      by (auto simp: deque_init_def split: if_splits)
    then show ?thesis using fold_appendleft_take [of d xs] by simp
  qed
  moreover have "length (items (pts_original s)) \<le> nat (buffer a) \<and>
      length (items (pts_warped s)) \<le> nat (buffer a)"
    if "main e a isOpened frames = Inr (Some s)"
    using main_ok [OF that] by (simp add: buffers_ok_def)
  ultimately show ?thesis by (simp add: parse_args_def)
qed

theorem trajectory_buffer_bounded_witness:
  "items (fold appendleft [Some (1, 1), None, Some (3, 3)] \<lparr>items = [], maxlen = 2\<rparr>) =
     [Some (3, 3), None :: point option] \<and>
   (\<exists>s. main env_stub stub_args True stub_video = Inr (Some s) \<and>
      items (pts_original s) = [Some (300, 400), None] \<and>
      length (items (pts_warped s)) \<le> 2) \<and>
   buffer (parse_args ''rgb.avi'' None) = 64"
proof -
  from stub_main obtain s where
    m: "main env_stub stub_args True stub_video = Inr (Some s)"
    and po: "items (pts_original s) = [Some (300, 400), None]"
    by force
  have d: "deque_init 2 = Inr \<lparr>items = [], maxlen = 2 :: nat\<rparr>"
    by (simp add: deque_init_def)
  have b: "buffer stub_args = 2"
    by (simp add: stub_args_def parse_args_def)
  from trajectory_buffer_bounded
    [of 2 "\<lparr>items = [], maxlen = 2\<rparr>" "[Some (1, 1), None, Some (3, 3)]"
      env_stub stub_args True stub_video s "''rgb.avi''"]
    d m po b
  show ?thesis by auto
qed

text \<open>
  C8. When the stabilizer returns no frame, the pass through the loop body ends at
  \<open>continue\<close>: both trajectory buffers are unchanged, and nothing is added to the trace
  after the call of the stabilizer (no warp, detection, transform, drawing or display);
  the loop goes on with the next frame.
\<close>

theorem loop_body_skips_unready_frame:
  assumes "pre_resize e frame0 = Inr frame"
    and "fst (stabilize_frame e (stabilizer s) frame SMOOTHING_WINDOW) = None"
  shows "\<exists>s'. loop_body e mapper a s frame0 key = Inr (s', Continue) \<and>
     pts_original s' = pts_original s \<and> pts_warped s' = pts_warped s \<and>
     trace s' = trace s @ [Resize, Stabilize] \<and>
     main_loop e mapper a s ((frame0, key) # rest) = main_loop e mapper a s' rest"
proof -
  from assms(2) obtain stab where
    st: "stabilize_frame e (stabilizer s) frame SMOOTHING_WINDOW = (None, stab)"
    by (cases "stabilize_frame e (stabilizer s) frame SMOOTHING_WINDOW") simp
  have body: "loop_body e mapper a s frame0 key =
      Inr (s\<lparr>stabilizer := stab, trace := trace s @ [Resize, Stabilize]\<rparr>, Continue)"
    by (simp add: loop_body_def assms(1) st)
  show ?thesis
    by (rule exI [of _ "s\<lparr>stabilizer := stab, trace := trace s @ [Resize, Stabilize]\<rparr>"])
      (simp add: body)
qed

theorem loop_body_skips_unready_frame_witness:
  "\<exists>s'. loop_body env_stub stub_mapper stub_args (stub_state 0) green_frame 0 =
       Inr (s', Continue) \<and>
     items (pts_original s') = [] \<and> items (pts_warped s') = [] \<and>
     trace s' = [Resize, Stabilize] \<and>
     main_loop env_stub stub_mapper stub_args (stub_state 0) [(green_frame, 0)] = Inr s'"
proof -
  have st: "fst (stabilize_frame env_stub (stabilizer (stub_state 0)) green_frame
      SMOOTHING_WINDOW) = None"
    by (simp add: stub_env stub_state_def)
  from loop_body_skips_unready_frame
    [OF stub_pre_resize(2) st, of stub_mapper stub_args 0 "[]"]
  show ?thesis by (auto simp: stub_state_def)
qed

text \<open>
  C10. The two trajectory buffers have the same length at the start and after every pass
  through the loop body, hence at the end of \<open>main\<close>. For a frame that the stabilizer
  returns, the detected centre is pushed into the original-space buffer and its transform
  into the rectified-space buffer, and the latter is absent exactly when the former is.
\<close>

theorem trajectory_buffers_aligned:
  "(init_state e a = Inr s0 \<longrightarrow> buffers_ok (nat (buffer a)) s0) \<and>
   (buffers_ok cap s \<and> loop_body e mapper a s frame0 key = Inr (s', ctl) \<longrightarrow>
      buffers_ok cap s' \<and> length (items (pts_warped s')) = length (items (pts_original s'))) \<and>
   (main e a isOpened frames = Inr (Some sf) \<longrightarrow>
      length (items (pts_warped sf)) = length (items (pts_original sf))) \<and>
   (pre_resize e frame0 = Inr frame \<and>
    stabilize_frame e (stabilizer s) frame SMOOTHING_WINDOW = (Some fs, stab) \<longrightarrow>
      (\<exists>center radius msk s1 ctl1.
         detect_ball (lib e) fs = Inr (center, radius, msk) \<and>
         loop_body e mapper a s frame0 key = Inr (s1, ctl1) \<and>
         pts_original s1 = appendleft center (pts_original s) \<and>
         pts_warped s1 = appendleft (transform_point mapper center) (pts_warped s) \<and>
         (transform_point mapper center = None \<longleftrightarrow> center = None)))"
proof -
  have step: "buffers_ok cap s' \<and>
      length (items (pts_warped s')) = length (items (pts_original s'))"
    if "buffers_ok cap s" "loop_body e mapper a s frame0 key = Inr (s', ctl)"
    using loop_body_ok [OF that] by (simp add: buffers_ok_def)
  have fin: "length (items (pts_warped sf)) = length (items (pts_original sf))"
    if "main e a isOpened frames = Inr (Some sf)"
    using main_ok [OF that] by (simp add: buffers_ok_def)
  have push: "\<exists>center radius msk s1 ctl1.
      detect_ball (lib e) fs = Inr (center, radius, msk) \<and>
      loop_body e mapper a s frame0 key = Inr (s1, ctl1) \<and>
      pts_original s1 = appendleft center (pts_original s) \<and>
      pts_warped s1 = appendleft (transform_point mapper center) (pts_warped s) \<and>
      (transform_point mapper center = None \<longleftrightarrow> center = None)"
    if r: "pre_resize e frame0 = Inr frame"
      and st: "stabilize_frame e (stabilizer s) frame SMOOTHING_WINDOW = (Some fs, stab)"
  proof -
    from detect_ball_total [of "lib e" fs] obtain center radius where
      d: "detect_ball (lib e) fs = Inr (center, radius, ball_mask (lib e) fs)" by blast
    have w: "(case center of None \<Rightarrow> None | Some c \<Rightarrow> transform_point mapper center) =
        transform_point mapper center"
      by (cases center) (simp_all add: transform_point_def)
    show ?thesis
      by (cases center)
        (simp_all add: d r st loop_body_def Let_def transform_point_None_iff
          transform_point_def [of mapper None])
  qed
  from step fin push init_state_ok [of e a s0] show ?thesis by blast
qed

theorem trajectory_buffers_aligned_witness:
  "(\<exists>s. main env_stub stub_args True stub_video = Inr (Some s) \<and>
      length (items (pts_original s)) = 2 \<and> length (items (pts_warped s)) = 2) \<and>
   (\<exists>s1 ctl1.
      loop_body env_stub stub_mapper stub_args (stub_state 2) red_frame 0 = Inr (s1, ctl1) \<and>
      items (pts_original s1) = [Some (300, 400)] \<and>
      items (pts_warped s1) = [Some (172, 665)]) \<and>
   buffers_ok 2 (stub_state 0)"
proof -
  from stub_main obtain s where
    m: "main env_stub stub_args True stub_video = Inr (Some s)"
    and po: "items (pts_original s) = [Some (300, 400), None]"
    by force
  have st: "stabilize_frame env_stub (stabilizer (stub_state 2)) red_frame SMOOTHING_WINDOW =
      (Some red_frame, 3)"
    by (simp add: stub_env stub_state_def)
  have b: "nat (buffer stub_args) = 2"
    by (simp add: stub_args_def parse_args_def)
  note aligned = trajectory_buffers_aligned
    [where e = env_stub and a = stub_args and ?s0.0 = "stub_state 0" and isOpened = True
      and frames = stub_video and sf = s and ?frame0.0 = red_frame and frame = red_frame
      and s = "stub_state 2" and fs = red_frame and stab = 3 and mapper = stub_mapper
      and key = 0]
  from aligned m po have fin: "length (items (pts_warped s)) = 2" by simp
  from aligned stub_init b have ini: "buffers_ok 2 (stub_state 0)" by simp
  from aligned stub_pre_resize(1) st obtain center radius msk s1 ctl1 where
    d: "detect_ball (lib env_stub) red_frame = Inr (center, radius, msk)"
    and body: "loop_body env_stub stub_mapper stub_args (stub_state 2) red_frame 0 =
      Inr (s1, ctl1)"
    and push: "pts_original s1 = appendleft center (pts_original (stub_state 2))"
      "pts_warped s1 = appendleft (transform_point stub_mapper center)
        (pts_warped (stub_state 2))"
    by blast
  from d have "center = Some (300, 400)" by (simp add: stub_env red_frame_detect)
  with push have "items (pts_original s1) = [Some (300, 400)]"
    "items (pts_warped s1) = [Some (172, 665)]"
    by (simp_all add: stub_transform appendleft_def stub_state_def)
  with m po fin ini body show ?thesis by auto
qed

end
